theory Spec2Isabelle
  imports Main
begin

section \<open>Values and records\<close>

text \<open>
  The monitor of \<^verbatim>\<open>mongodb_monitor.py\<close> reads documents of a MongoDB collection, which
  reach Python as dictionaries from field names to values. \<open>pyval\<close> is the part of that
  value space the monitor distinguishes: None, Booleans, integers, strings, dates,
  ObjectIds (read as the natural number of their 12 bytes, which is how they are ordered),
  lists and nested dictionaries. A dictionary is an association list, since the extractor
  walks \<^verbatim>\<open>document.items()\<close> in order; Python keeps every key once. Strings are lists
  of characters, a character standing for a code point below 256.
\<close>

datatype pyval =
    VNone
  | VBool bool
  | VInt int
  | VStr string
  | VDate int
  | VObjectId nat
  | VList "pyval list"
  | VDict "(string \<times> pyval) list"

type_synonym pydict = "(string \<times> pyval) list"

text \<open>The truth test of an \<^verbatim>\<open>if value:\<close>.\<close>

fun truthy :: "pyval \<Rightarrow> bool" where
  "truthy VNone = False"
| "truthy (VBool b) = b"
| "truthy (VInt i) = (i \<noteq> 0)"
| "truthy (VStr s) = (s \<noteq> [])"
| "truthy (VDate t) = True"
| "truthy (VObjectId n) = True"
| "truthy (VList xs) = (xs \<noteq> [])"
| "truthy (VDict kvs) = (kvs \<noteq> [])"

section \<open>\<^verbatim>\<open>preserve_code_formatting\<close>\<close>

text \<open>
  \<^verbatim>\<open>str.splitlines\<close> cuts at line feed, vertical tab, form feed, carriage return, the
  file, group and record separators and next line (U+0085); a carriage return directly
  followed by a line feed is one boundary (\<open>after_break\<close>), and a boundary at the very end
  opens no further line. \<^verbatim>\<open>str.rstrip\<close> without argument removes the trailing characters
  for which \<^verbatim>\<open>str.isspace\<close> holds. Both are given here for code points below 256.
\<close>

definition is_linebreak :: "char \<Rightarrow> bool" where
  "is_linebreak c = (c \<in> set [CHR 0x0A, CHR 0x0B, CHR 0x0C, CHR 0x0D, CHR 0x1C, CHR 0x1D, CHR 0x1E, CHR 0x85])"

definition is_space :: "char \<Rightarrow> bool" where
  "is_space c = (c \<in> set [CHR 0x09, CHR 0x0A, CHR 0x0B, CHR 0x0C, CHR 0x0D, CHR 0x1C, CHR 0x1D,
      CHR 0x1E, CHR 0x1F, CHR 0x20, CHR 0x85, CHR 0xA0])"

definition after_break :: "char \<Rightarrow> string \<Rightarrow> string" where
  "after_break c cs =
     (case cs of
        [] \<Rightarrow> cs
      | c' # cs' \<Rightarrow> if c = CHR 0x0D \<and> c' = CHR 0x0A then cs' else cs)"

function splitlines_from :: "string \<Rightarrow> string \<Rightarrow> string list" where
  "splitlines_from cur [] = (if cur = [] then [] else [cur])"
| "splitlines_from cur (c # cs) =
     (if is_linebreak c then cur # splitlines_from [] (after_break c cs)
      else splitlines_from (cur @ [c]) cs)"
  by pat_completeness auto
termination
  by (relation "measure (\<lambda>(cur, s). length s)")
     (auto simp: after_break_def split: list.split)

definition splitlines :: "string \<Rightarrow> string list" where
  "splitlines text = splitlines_from [] text"

fun rstrip :: "string \<Rightarrow> string" where
  "rstrip [] = []"
| "rstrip (c # cs) = (let r = rstrip cs in if r = [] \<and> is_space c then [] else c # r)"

fun py_join :: "string \<Rightarrow> string list \<Rightarrow> string" where
  "py_join sep [] = []"
| "py_join sep [x] = x"
| "py_join sep (x # y # ys) = x @ sep @ py_join sep (y # ys)"

text \<open>
  The loop \<^verbatim>\<open>for line in lines: formatted_lines.append(line.rstrip())\<close>, and the
  function around it, which returns the empty string for an empty argument.
\<close>

fun format_lines :: "string list \<Rightarrow> string list \<Rightarrow> string list" where
  "format_lines [] formatted_lines = formatted_lines"
| "format_lines (line # lines) formatted_lines =
     format_lines lines (formatted_lines @ [rstrip line])"

definition preserve_code_formatting :: "string \<Rightarrow> string" where
  "preserve_code_formatting text =
     (if text = [] then []
      else py_join [CHR 0x0A] (format_lines (splitlines text) []))"

section \<open>\<^verbatim>\<open>extract_text_content\<close>\<close>

text \<open>
  \<^verbatim>\<open>str(document[field])\<close> is the string itself for a string. For the other values it is
  Python's rendering, which is taken as the parameter \<open>str_of\<close> of the extractor: every
  result below holds for any rendering. The first loop goes through the alias names in
  their fixed order and returns at the first one that is in the record with a true value
  (\<open>nonempty_field\<close>). The second loop goes through the fields of the record in their
  order, skips keys beginning with an underscore, returns a string of more than 10
  characters, and enters a nested dictionary at once, returning its result unless that is
  None or empty.
\<close>

definition text_fields :: "string list" where
  "text_fields = [''text'', ''content'', ''code'', ''message'', ''body'', ''data'', ''value'', ''snippet'']"

definition py_str :: "(pyval \<Rightarrow> string) \<Rightarrow> pyval \<Rightarrow> string" where
  "py_str str_of v = (case v of VStr s \<Rightarrow> s | _ \<Rightarrow> str_of v)"

definition startswith_underscore :: "string \<Rightarrow> bool" where
  "startswith_underscore key = (case key of [] \<Rightarrow> False | c # _ \<Rightarrow> c = CHR ''_'')"

definition nonempty_field :: "pydict \<Rightarrow> string \<Rightarrow> bool" where
  "nonempty_field document field =
     (case map_of document field of None \<Rightarrow> False | Some v \<Rightarrow> truthy v)"

fun alias_loop :: "(pyval \<Rightarrow> string) \<Rightarrow> string list \<Rightarrow> pydict \<Rightarrow> string option" where
  "alias_loop str_of [] document = None"
| "alias_loop str_of (field # others) document =
     (if nonempty_field document field then
        (case map_of document field of
           None \<Rightarrow> None
         | Some v \<Rightarrow> Some (preserve_code_formatting (py_str str_of v)))
      else alias_loop str_of others document)"

fun extract_text_content :: "(pyval \<Rightarrow> string) \<Rightarrow> pydict \<Rightarrow> string option"
  and items_loop :: "(pyval \<Rightarrow> string) \<Rightarrow> pydict \<Rightarrow> string option" where
  "extract_text_content str_of document =
     (case alias_loop str_of text_fields document of
        Some t \<Rightarrow> Some t
      | None \<Rightarrow> items_loop str_of document)"
| "items_loop str_of [] = None"
| "items_loop str_of ((key, v) # rest) =
     (if startswith_underscore key then items_loop str_of rest
      else case v of
        VStr s \<Rightarrow>
          if length s > 10 then Some (preserve_code_formatting s)
          else items_loop str_of rest
      | VDict d \<Rightarrow>
          (case extract_text_content str_of d of
             Some nested_text \<Rightarrow>
               if nested_text \<noteq> [] then Some nested_text else items_loop str_of rest
           | None \<Rightarrow> items_loop str_of rest)
      | _ \<Rightarrow> items_loop str_of rest)"


section \<open>The store\<close>

text \<open>
  A stored document has an \<^verbatim>\<open>_id\<close>, an ObjectId that the driver makes on insertion
  (neither the seeding script nor the web form of the repository sets one), and its other
  fields. \<open>to_dict\<close> is the dictionary the monitor receives.

  A query is a dictionary from field names to conditions: equality with a value, as in the
  static filters, \<^verbatim>\<open>$gt\<close> and \<^verbatim>\<open>$exists\<close>. \<^verbatim>\<open>$gt\<close> holds between two values of one
  kind only. The store at the moment of a poll is the list of its documents in insertion
  order, or None when it cannot be reached and every call raises. \<open>find_sort_limit\<close> is
  \<^verbatim>\<open>find(query).sort('_id', -1).limit(100)\<close>.
\<close>

record document =
  oid :: nat
  body :: pydict

definition to_dict :: "document \<Rightarrow> pydict" where
  "to_dict d = (''_id'', VObjectId (oid d)) # body d"

datatype cond = Eq pyval | Gt pyval | Exists bool

type_synonym query = "(string \<times> cond) list"

fun bson_gt :: "pyval \<Rightarrow> pyval \<Rightarrow> bool" where
  "bson_gt (VObjectId a) (VObjectId b) = (a > b)"
| "bson_gt (VDate a) (VDate b) = (a > b)"
| "bson_gt (VInt a) (VInt b) = (a > b)"
| "bson_gt _ _ = False"

fun holds :: "cond \<Rightarrow> pyval option \<Rightarrow> bool" where
  "holds (Exists b) fv = ((fv \<noteq> None) = b)"
| "holds (Eq v) None = (v = VNone)"
| "holds (Eq v) (Some w) = (w = v \<or> (case w of VList xs \<Rightarrow> v \<in> set xs | _ \<Rightarrow> False))"
| "holds (Gt v) None = False"
| "holds (Gt v) (Some w) = bson_gt w v"

definition matches :: "query \<Rightarrow> document \<Rightarrow> bool" where
  "matches q d = list_all (\<lambda>(field, c). holds c (map_of (to_dict d) field)) q"

datatype failure = ConnectionFailure | StructError

type_synonym store = "document list option"

definition find_one :: "query \<Rightarrow> store \<Rightarrow> failure + document option" where
  "find_one q s = (case s of None \<Rightarrow> Inl ConnectionFailure | Some coll \<Rightarrow> Inr (List.find (matches q) coll))"

definition find_sort_limit :: "query \<Rightarrow> store \<Rightarrow> failure + document list" where
  "find_sort_limit q s =
     (case s of
        None \<Rightarrow> Inl ConnectionFailure
      | Some coll \<Rightarrow> Inr (take 100 (rev (sort_key oid (filter (matches q) coll)))))"

text \<open>
  \<^verbatim>\<open>ObjectId.from_datetime\<close> packs the seconds since the epoch into the first four bytes
  and fills the other eight with zeros; packing raises outside the range of four bytes.
  Times are whole seconds.
\<close>

definition from_datetime :: "int \<Rightarrow> failure + nat" where
  "from_datetime t = (if 0 \<le> t \<and> t < 2 ^ 32 then Inr (nat t * 2 ^ 64) else Inl StructError)"

section \<open>The monitor\<close>

text \<open>
  The state of a monitor object: the fields of \<^verbatim>\<open>MongoDBPollingMonitor\<close>, the filters and
  the statistics dictionary of \<^verbatim>\<open>EnhancedPollingMonitor\<close>, and the trace of what the
  monitor has done to the outside, in order: the log line that opens the processing of a
  document, and each call of \<^verbatim>\<open>pyperclip.copy\<close> with its text and whether it succeeded.
  \<open>init_monitor\<close> is the constructor.
\<close>

datatype event = Processing nat | Copy string bool

record monitor =
  is_monitoring :: bool
  last_check_time :: "int option"
  processed_ids :: "nat set"
  filters :: "(string \<times> pyval) list"
  documents_processed :: nat
  texts_copied :: nat
  start_time :: "int option"
  runtime_seconds :: "int option"
  trace :: "event list"

definition init_monitor :: "(string \<times> pyval) list \<Rightarrow> monitor" where
  "init_monitor fs =
     \<lparr> is_monitoring = False, last_check_time = None, processed_ids = {},
       filters = fs, documents_processed = 0, texts_copied = 0, start_time = None,
       runtime_seconds = None, trace = [] \<rparr>"

text \<open>What a poll cycle meets: the store at that moment and the clock read at its end.\<close>

record cycle_env =
  store_now :: store
  clock :: int

text \<open>
  The query of \<^verbatim>\<open>MongoDBPollingMonitor.get_new_documents\<close>: the loop over
  \<open>timestamp_fields\<close> stops at the first name that some document has, and at
  \<^verbatim>\<open>_id\<close>, the last of the list. The query of the enhanced monitor is a copy of the
  filters with \<^verbatim>\<open>_id\<close> set. An exception anywhere in the body is caught and gives the
  empty list.
\<close>

definition timestamp_fields :: "string list" where
  "timestamp_fields = [''timestamp'', ''created_at'', ''createdAt'', ''date_created'', ''_id'']"

fun choose_query :: "string list \<Rightarrow> int \<Rightarrow> store \<Rightarrow> query \<Rightarrow> failure + query" where
  "choose_query [] t s query = Inr query"
| "choose_query (field # others) t s query =
     (if field = ''_id'' then
        (case from_datetime t of
           Inl e \<Rightarrow> Inl e
         | Inr last_object_id \<Rightarrow> Inr [(''_id'', Gt (VObjectId last_object_id))])
      else
        (case find_one [(field, Exists True)] s of
           Inl e \<Rightarrow> Inl e
         | Inr None \<Rightarrow> choose_query others t s query
         | Inr (Some sample_doc) \<Rightarrow>
             if to_dict sample_doc \<noteq> [] then Inr [(field, Gt (VDate t))]
             else choose_query others t s query))"

definition base_query :: "store \<Rightarrow> monitor \<Rightarrow> failure + query" where
  "base_query s st =
     (case last_check_time st of
        None \<Rightarrow> Inr []
      | Some t \<Rightarrow> choose_query timestamp_fields t s [])"

fun dict_set :: "string \<Rightarrow> 'v \<Rightarrow> (string \<times> 'v) list \<Rightarrow> (string \<times> 'v) list" where
  "dict_set k v [] = [(k, v)]"
| "dict_set k v ((k', v') # rest) = (if k' = k then (k, v) # rest else (k', v') # dict_set k v rest)"

definition enh_query :: "monitor \<Rightarrow> failure + query" where
  "enh_query st =
     (let query = map (\<lambda>(k, v). (k, Eq v)) (filters st) in
      case last_check_time st of
        None \<Rightarrow> Inr query
      | Some t \<Rightarrow>
          (case from_datetime t of
             Inl e \<Rightarrow> Inl e
           | Inr last_object_id \<Rightarrow> Inr (dict_set ''_id'' (Gt (VObjectId last_object_id)) query)))"

text \<open>
  \<open>variant\<close> says which class the object has, for the methods the enhanced monitor
  overrides. \<open>fetch\<close> is the part of \<^verbatim>\<open>get_new_documents\<close> up to the list read from the
  cursor, \<open>filter_loop\<close> the loop that keeps the unseen documents and records their
  identifiers.
\<close>

datatype variant = Basic | Enhanced

definition fetch :: "variant \<Rightarrow> store \<Rightarrow> monitor \<Rightarrow> failure + document list" where
  "fetch v s st =
     (case (case v of Basic \<Rightarrow> base_query s st | Enhanced \<Rightarrow> enh_query st) of
        Inl e \<Rightarrow> Inl e
      | Inr query \<Rightarrow> find_sort_limit query s)"

fun filter_loop :: "document list \<Rightarrow> document list \<Rightarrow> monitor \<Rightarrow> document list \<times> monitor" where
  "filter_loop [] filtered_docs st = (filtered_docs, st)"
| "filter_loop (doc # new_documents) filtered_docs st =
     (let doc_id = oid doc in
      if doc_id \<notin> processed_ids st then
        filter_loop new_documents (filtered_docs @ [doc])
          (st\<lparr>processed_ids := insert doc_id (processed_ids st)\<rparr>)
      else filter_loop new_documents filtered_docs st)"

definition get_new_documents :: "variant \<Rightarrow> store \<Rightarrow> monitor \<Rightarrow> document list \<times> monitor" where
  "get_new_documents v s st =
     (case fetch v s st of
        Inl e \<Rightarrow> ([], st)
      | Inr new_documents \<Rightarrow> filter_loop new_documents [] st)"

text \<open>
  The sink is outside the program: \<open>sink n\<close> says whether the call of
  \<^verbatim>\<open>pyperclip.copy\<close> that follows \<open>n\<close> earlier calls succeeds. \<^verbatim>\<open>copy_to_clipboard\<close>
  turns the exception into False.
\<close>

definition attempts :: "event list \<Rightarrow> nat" where
  "attempts tr = length (filter (\<lambda>e. case e of Copy _ _ \<Rightarrow> True | _ \<Rightarrow> False) tr)"

definition copy_to_clipboard :: "(nat \<Rightarrow> bool) \<Rightarrow> string \<Rightarrow> monitor \<Rightarrow> bool \<times> monitor" where
  "copy_to_clipboard sink text st =
     (let ok = sink (attempts (trace st)) in (ok, st\<lparr>trace := trace st @ [Copy text ok]\<rparr>))"

definition process_document ::
  "(pyval \<Rightarrow> string) \<Rightarrow> (nat \<Rightarrow> bool) \<Rightarrow> document \<Rightarrow> monitor \<Rightarrow> monitor" where
  "process_document str_of sink document st =
     (let st1 = st\<lparr>trace := trace st @ [Processing (oid document)]\<rparr> in
      case extract_text_content str_of (to_dict document) of
        None \<Rightarrow> st1
      | Some text_content \<Rightarrow>
          if text_content \<noteq> [] then snd (copy_to_clipboard sink text_content st1) else st1)"

definition enh_process_document ::
  "(pyval \<Rightarrow> string) \<Rightarrow> (nat \<Rightarrow> bool) \<Rightarrow> document \<Rightarrow> monitor \<Rightarrow> monitor" where
  "enh_process_document str_of sink document st =
     (let st1 = process_document str_of sink document st;
          st2 = st1\<lparr>documents_processed := documents_processed st1 + 1\<rparr>
      in case extract_text_content str_of (to_dict document) of
           None \<Rightarrow> st2
         | Some text_content \<Rightarrow>
             if text_content \<noteq> [] then st2\<lparr>texts_copied := texts_copied st2 + 1\<rparr> else st2)"

definition process_document_v ::
  "variant \<Rightarrow> (pyval \<Rightarrow> string) \<Rightarrow> (nat \<Rightarrow> bool) \<Rightarrow> document \<Rightarrow> monitor \<Rightarrow> monitor" where
  "process_document_v v = (case v of Basic \<Rightarrow> process_document | Enhanced \<Rightarrow> enh_process_document)"

fun process_all ::
  "variant \<Rightarrow> (pyval \<Rightarrow> string) \<Rightarrow> (nat \<Rightarrow> bool) \<Rightarrow> document list \<Rightarrow> monitor \<Rightarrow> monitor" where
  "process_all v str_of sink [] st = st"
| "process_all v str_of sink (document # rest) st =
     process_all v str_of sink rest (process_document_v v str_of sink document st)"

text \<open>
  One poll cycle, the loop of cycles, and a run from \<^verbatim>\<open>start_monitoring\<close> to
  \<^verbatim>\<open>stop_monitoring\<close>. A run is given by whether the connection succeeds, the two clock
  readings at its start and the cycles it completes before it is interrupted or stopped;
  \<open>lifetime\<close> is a sequence of runs of one object.
\<close>

definition poll_for_changes ::
  "variant \<Rightarrow> (pyval \<Rightarrow> string) \<Rightarrow> (nat \<Rightarrow> bool) \<Rightarrow> cycle_env \<Rightarrow> monitor \<Rightarrow> monitor" where
  "poll_for_changes v str_of sink env st =
     (let (new_documents, st1) = get_new_documents v (store_now env) st;
          st2 = (if new_documents \<noteq> [] then process_all v str_of sink (rev new_documents) st1
                 else st1)
      in st2\<lparr>last_check_time := Some (clock env)\<rparr>)"

fun monitoring_loop ::
  "variant \<Rightarrow> (pyval \<Rightarrow> string) \<Rightarrow> (nat \<Rightarrow> bool) \<Rightarrow> cycle_env list \<Rightarrow> monitor \<Rightarrow> monitor" where
  "monitoring_loop v str_of sink [] st = st"
| "monitoring_loop v str_of sink (env # envs) st =
     (if is_monitoring st then monitoring_loop v str_of sink envs (poll_for_changes v str_of sink env st)
      else st)"

definition stop_monitoring :: "monitor \<Rightarrow> monitor" where
  "stop_monitoring st = st\<lparr>is_monitoring := False\<rparr>"

record run =
  connect_ok :: bool
  stats_clock :: int
  start_clock :: int
  cycles :: "cycle_env list"

definition base_start_monitoring ::
  "variant \<Rightarrow> (pyval \<Rightarrow> string) \<Rightarrow> (nat \<Rightarrow> bool) \<Rightarrow> run \<Rightarrow> monitor \<Rightarrow> monitor" where
  "base_start_monitoring v str_of sink r st =
     (if \<not> connect_ok r then st
      else
        let st1 = st\<lparr>is_monitoring := True, last_check_time := Some (start_clock r - 5)\<rparr>
        in stop_monitoring (monitoring_loop v str_of sink (cycles r) st1))"

definition start_monitoring ::
  "variant \<Rightarrow> (pyval \<Rightarrow> string) \<Rightarrow> (nat \<Rightarrow> bool) \<Rightarrow> run \<Rightarrow> monitor \<Rightarrow> monitor" where
  "start_monitoring v str_of sink r st =
     (case v of
        Basic \<Rightarrow> base_start_monitoring v str_of sink r st
      | Enhanced \<Rightarrow>
          base_start_monitoring v str_of sink r (st\<lparr>start_time := Some (stats_clock r)\<rparr>))"

fun lifetime ::
  "variant \<Rightarrow> (pyval \<Rightarrow> string) \<Rightarrow> (nat \<Rightarrow> bool) \<Rightarrow> run list \<Rightarrow> monitor \<Rightarrow> monitor" where
  "lifetime v str_of sink [] st = st"
| "lifetime v str_of sink (r # rs) st = lifetime v str_of sink rs (start_monitoring v str_of sink r st)"

text \<open>\<^verbatim>\<open>get_stats\<close> stores the run time when a start time is set and returns the statistics.\<close>

definition get_stats :: "int \<Rightarrow> monitor \<Rightarrow> (nat \<times> nat \<times> int option \<times> int option) \<times> monitor" where
  "get_stats now st =
     (let st1 = (case start_time st of
                   None \<Rightarrow> st
                 | Some t0 \<Rightarrow> st\<lparr>runtime_seconds := Some (now - t0)\<rparr>)
      in ((documents_processed st1, texts_copied st1, start_time st1, runtime_seconds st1), st1))"

section \<open>Notions used in the statements\<close>

text \<open>
  \<open>processing_order\<close> reads from a trace the identifiers in the order in which their
  documents were processed; \<open>copy_ids\<close> gives, for each copy attempt, the identifier of
  the document being processed then. \<open>fresh\<close> is the list \<open>filter_loop\<close> adds to its
  accumulator. A state is \<open>consistent\<close> when no identifier occurs twice in either reading
  of its trace and every processed identifier is in the seen-set. \<open>inert\<close> describes a
  field over which the second loop of the extractor passes. The constants after that are
  the documents, runs and sinks of the examples; \<open>no_render\<close> is a rendering for records
  in which only strings are rendered.

  \<open>deliveries\<close> reads from a trace the copy attempts in order, each with the identifier
  of the document being processed at that moment and the text handed to the sink;
  \<open>payload\<close> is the text extraction yields for a document, empty when it yields none.
  \<open>str_scalar\<close> renders None, Booleans and integers as Python's \<^verbatim>\<open>str\<close> does (it is used
  on such values only). \<open>spec_nonempty_field\<close> follows the words "present and non-empty"
  of the specification: a field is non-empty when it is present and its value is not
  None, the empty string, the empty list or the empty record, so that 0 and False count
  as values.
\<close>

fun processing_order :: "event list \<Rightarrow> nat list" where
  "processing_order [] = []"
| "processing_order (Processing i # es) = i # processing_order es"
| "processing_order (Copy t ok # es) = processing_order es"

fun fresh :: "document list \<Rightarrow> nat set \<Rightarrow> document list" where
  "fresh [] seen = []"
| "fresh (d # ds) seen =
     (if oid d \<notin> seen then d # fresh ds (insert (oid d) seen) else fresh ds seen)"

definition has_field :: "string \<Rightarrow> document \<Rightarrow> bool" where
  "has_field f d = (map_of (to_dict d) f \<noteq> None)"

definition sink_up :: "nat \<Rightarrow> bool" where
  "sink_up n = True"

definition sink_fails_first :: "nat \<Rightarrow> bool" where
  "sink_fails_first n = (n \<noteq> 0)"

fun copy_ids_from :: "nat option \<Rightarrow> event list \<Rightarrow> nat list" where
  "copy_ids_from cur [] = []"
| "copy_ids_from cur (Processing i # es) = copy_ids_from (Some i) es"
| "copy_ids_from cur (Copy t ok # es) =
     (case cur of None \<Rightarrow> [] | Some i \<Rightarrow> [i]) @ copy_ids_from cur es"

definition copy_ids :: "event list \<Rightarrow> nat list" where
  "copy_ids tr = copy_ids_from None tr"


definition consistent :: "monitor \<Rightarrow> bool" where
  "consistent st =
     (distinct (processing_order (trace st)) \<and>
      set (processing_order (trace st)) \<subseteq> processed_ids st \<and>
      distinct (copy_ids (trace st)) \<and>
      set (copy_ids (trace st)) \<subseteq> set (processing_order (trace st)))"

definition doc_a :: document where
  "doc_a = \<lparr>oid = 105 * 2 ^ 64 + 3, body = [(''type'', VStr ''code''), (''code'', VStr ''a = 1'')]\<rparr>"

definition doc_b :: document where
  "doc_b = \<lparr>oid = 105 * 2 ^ 64 + 5, body = [(''type'', VStr ''code''), (''code'', VStr ''b = 2'')]\<rparr>"

definition two_cycle_run :: run where
  "two_cycle_run =
     \<lparr>connect_ok = True, stats_clock = 105, start_clock = 105,
      cycles = [\<lparr>store_now = Some [doc_b], clock = 105\<rparr>,
                \<lparr>store_now = Some [doc_b, doc_a], clock = 106\<rparr>]\<rparr>"

definition idle_run :: run where
  "idle_run = \<lparr>connect_ok = True, stats_clock = 200, start_clock = 200, cycles = []\<rparr>"

definition sink_down :: "nat \<Rightarrow> bool" where
  "sink_down n = False"

definition stamped_doc :: document where
  "stamped_doc =
     \<lparr>oid = 105 * 2 ^ 64 + 3,
      body = [(''title'', VStr ''Print stuff''), (''code'', VStr ''a = 1''), (''timestamp'', VInt 1700000000)]\<rparr>"

definition stats_grow :: "monitor \<Rightarrow> monitor \<Rightarrow> bool" where
  "stats_grow st st' =
     (documents_processed st \<le> documents_processed st' \<and> texts_copied st \<le> texts_copied st' \<and>
      start_time st' = start_time st)"

fun deliveries_from :: "nat option \<Rightarrow> event list \<Rightarrow> (nat \<times> string) list" where
  "deliveries_from cur [] = []"
| "deliveries_from cur (Processing i # es) = deliveries_from (Some i) es"
| "deliveries_from cur (Copy t ok # es) =
     (case cur of None \<Rightarrow> [] | Some i \<Rightarrow> [(i, t)]) @ deliveries_from cur es"

definition deliveries :: "event list \<Rightarrow> (nat \<times> string) list" where
  "deliveries tr = deliveries_from None tr"

definition payload :: "(pyval \<Rightarrow> string) \<Rightarrow> document \<Rightarrow> string" where
  "payload str_of d =
     (case extract_text_content str_of (to_dict d) of None \<Rightarrow> [] | Some t \<Rightarrow> t)"

definition labelled :: "nat \<Rightarrow> string \<Rightarrow> document" where
  "labelled n t = \<lparr>oid = n, body = [(''code'', VStr t)]\<rparr>"

definition digit_char :: "nat \<Rightarrow> char" where
  "digit_char d = ''0123456789'' ! d"

fun dec :: "nat \<Rightarrow> string" where
  "dec n = (if n < 10 then [digit_char n] else dec (n div 10) @ [digit_char (n mod 10)])"

declare dec.simps [simp del]

fun str_scalar :: "pyval \<Rightarrow> string" where
  "str_scalar VNone = ''None''"
| "str_scalar (VBool b) = (if b then ''True'' else ''False'')"
| "str_scalar (VInt i) = (if i < 0 then CHR ''-'' # dec (nat (- i)) else dec (nat i))"
| "str_scalar (VStr s) = s"
| "str_scalar _ = []"

fun empty_value :: "pyval \<Rightarrow> bool" where
  "empty_value VNone = True"
| "empty_value (VStr s) = (s = [])"
| "empty_value (VList xs) = (xs = [])"
| "empty_value (VDict kvs) = (kvs = [])"
| "empty_value _ = False"

definition spec_nonempty_field :: "pydict \<Rightarrow> string \<Rightarrow> bool" where
  "spec_nonempty_field document field =
     (case map_of document field of None \<Rightarrow> False | Some v \<Rightarrow> \<not> empty_value v)"

definition inert :: "(pyval \<Rightarrow> string) \<Rightarrow> string \<times> pyval \<Rightarrow> bool" where
  "inert str_of kv =
     (startswith_underscore (fst kv) \<or>
      (case snd kv of
         VStr s \<Rightarrow> length s \<le> 10
       | VDict d \<Rightarrow> (case extract_text_content str_of d of None \<Rightarrow> True | Some t \<Rightarrow> t = [])
       | _ \<Rightarrow> True))"

definition no_render :: "pyval \<Rightarrow> string" where
  "no_render v = []"

section \<open>Formatting normalization\<close>

lemma format_lines_map: "format_lines ls acc = acc @ map rstrip ls"
  by (induction ls arbitrary: acc) auto

lemma rstrip_dropWhile: "rstrip l = rev (dropWhile is_space (rev l))"
proof (induction l)
  case Nil
  then show ?case by simp
next
  case (Cons c cs)
  show ?case
  proof (cases "rstrip cs = []")
    case True
    then have all: "\<forall>x\<in>set cs. is_space x"
      using Cons.IH by (simp add: dropWhile_eq_Nil_conv)
    have "dropWhile is_space (rev cs @ [c]) = dropWhile is_space [c]"
      by (rule dropWhile_append2) (use all in auto)
    then show ?thesis using True by (simp add: Let_def)
  next
    case False
    then have "dropWhile is_space (rev cs) \<noteq> []" using Cons.IH by simp
    then have "dropWhile is_space (rev cs @ [c]) = dropWhile is_space (rev cs) @ [c]"
      by (metis dropWhile_append1 dropWhile_eq_Nil_conv)
    then show ?thesis using False Cons.IH by (simp add: Let_def)
  qed
qed

lemma splitlines_from_plain:
  "list_all (\<lambda>c. \<not> is_linebreak c) l \<Longrightarrow>
   splitlines_from cur l = (if cur @ l = [] then [] else [cur @ l])"
  by (induction l arbitrary: cur) simp_all

lemma splitlines_from_break:
  "list_all (\<lambda>c. \<not> is_linebreak c) l \<Longrightarrow> is_linebreak b \<Longrightarrow>
   splitlines_from cur (l @ b # rest) = (cur @ l) # splitlines_from [] (after_break b rest)"
  by (induction l arbitrary: cur) simp_all

lemma preserve_code_formatting_eq:
  "preserve_code_formatting text =
     py_join [CHR 0x0A] (map (\<lambda>line. rev (dropWhile is_space (rev line))) (splitlines text))"
proof (cases "text = []")
  case True
  then show ?thesis by (simp add: preserve_code_formatting_def splitlines_def)
next
  case False
  have "rstrip = (\<lambda>line. rev (dropWhile is_space (rev line)))"
    by (rule ext) (rule rstrip_dropWhile)
  then show ?thesis using False by (simp add: preserve_code_formatting_def format_lines_map)
qed

lemma formatting_example:
  "preserve_code_formatting
    [CHR '' '', CHR '' '', CHR ''a'', CHR 0x0A, CHR 0x09, CHR ''b'', CHR '' '', CHR '' '',
     CHR 0x0A, CHR ''c'', CHR 0x0A]
   = [CHR '' '', CHR '' '', CHR ''a'', CHR 0x0A, CHR 0x09, CHR ''b'', CHR 0x0A, CHR ''c'']"
  by (simp add: preserve_code_formatting_def splitlines_def is_linebreak_def is_space_def after_break_def)

text \<open>
  Claim C6. For every input string, \<open>preserve_code_formatting\<close> splits the string on
  line boundaries, strips the trailing whitespace of each line and nothing else (the line
  with its longest all-whitespace suffix dropped, so leading whitespace stays), and joins
  the lines with one newline character. The two equations for \<open>splitlines\<close> say where
  the string is cut: a string free of line-boundary characters is one line (no line when it
  is empty), and the first line ends at the first line-boundary character, a carriage
  return directly followed by a line feed counting as one boundary. The empty string yields
  the empty string, and the string of two spaces, a, newline, tab, b, two spaces, newline,
  c, newline yields two spaces, a, newline, tab, b, newline, c.
\<close>

theorem preserve_code_formatting_normalizes:
  "preserve_code_formatting text =
     py_join [CHR 0x0A] (map (\<lambda>line. rev (dropWhile is_space (rev line))) (splitlines text))
   \<and> (list_all (\<lambda>c. \<not> is_linebreak c) l \<longrightarrow>
        splitlines l = (if l = [] then [] else [l]))
   \<and> (list_all (\<lambda>c. \<not> is_linebreak c) l \<and> is_linebreak b \<longrightarrow>
        splitlines (l @ b # rest) = l # splitlines (after_break b rest))
   \<and> preserve_code_formatting [] = []
   \<and> preserve_code_formatting
        [CHR '' '', CHR '' '', CHR ''a'', CHR 0x0A, CHR 0x09, CHR ''b'', CHR '' '', CHR '' '',
         CHR 0x0A, CHR ''c'', CHR 0x0A]
       = [CHR '' '', CHR '' '', CHR ''a'', CHR 0x0A, CHR 0x09, CHR ''b'', CHR 0x0A, CHR ''c'']"
proof -
  have a: "list_all (\<lambda>c. \<not> is_linebreak c) l \<longrightarrow>
        splitlines l = (if l = [] then [] else [l])"
    using splitlines_from_plain [of l "[]"] by (simp add: splitlines_def)
  have b: "list_all (\<lambda>c. \<not> is_linebreak c) l \<and> is_linebreak b \<longrightarrow>
        splitlines (l @ b # rest) = l # splitlines (after_break b rest)"
    using splitlines_from_break [of l b "[]" rest] by (simp add: splitlines_def)
  have c: "preserve_code_formatting [] = []"
    by (simp add: preserve_code_formatting_def)
  show ?thesis
    using preserve_code_formatting_eq [of "text"] a b c formatting_example by blast
qed

text \<open>The theorem at a string with a tab, trailing blanks and a carriage return, line feed pair.\<close>

theorem preserve_code_formatting_normalizes_witness:
  "preserve_code_formatting [CHR 0x09, CHR ''a'', CHR '' '', CHR 0x0D, CHR 0x0A, CHR ''b'', CHR 0x09]
     = [CHR 0x09, CHR ''a'', CHR 0x0A, CHR ''b'']
   \<and> list_all (\<lambda>c. \<not> is_linebreak c) ''ab'' \<and> is_linebreak (CHR 0x0D)
   \<and> splitlines ''ab'' = [''ab'']
   \<and> splitlines (''ab'' @ CHR 0x0D # [CHR 0x0A, CHR ''c'']) = [''ab'', ''c'']"
  using preserve_code_formatting_normalizes [of
        "[CHR 0x09, CHR ''a'', CHR '' '', CHR 0x0D, CHR 0x0A, CHR ''b'', CHR 0x09]"
        "''ab''" "CHR 0x0D" "[CHR 0x0A, CHR ''c'']"]
  by (simp add: splitlines_def is_linebreak_def is_space_def after_break_def)

section \<open>Content extraction\<close>

lemma alias_loop_find:
  "alias_loop str_of fs document =
     (case List.find (nonempty_field document) fs of
        None \<Rightarrow> None
      | Some f \<Rightarrow> map_option (\<lambda>v. preserve_code_formatting (py_str str_of v)) (map_of document f))"
  by (induction fs) (auto simp: nonempty_field_def split: option.splits)

lemma alias_loop_hit:
  assumes "List.find (nonempty_field document) fs = Some f" and "map_of document f = Some v"
  shows "alias_loop str_of fs document = Some (preserve_code_formatting (py_str str_of v))"
  using assms by (simp add: alias_loop_find)

lemma alias_loop_miss:
  "List.find (nonempty_field document) fs = None \<Longrightarrow> alias_loop str_of fs document = None"
  by (simp add: alias_loop_find)

lemma alias_loop_map_of:
  "map_of d' = map_of d \<Longrightarrow> alias_loop str_of fs d' = alias_loop str_of fs d"
  by (induction fs) (simp_all add: nonempty_field_def)

lemma formatting_x: "preserve_code_formatting ''x'' = ''x''"
  by (simp add: preserve_code_formatting_def splitlines_def is_linebreak_def is_space_def)

lemma extract_alias_hit:
  assumes "List.find (nonempty_field document) text_fields = Some f" and "map_of document f = Some v"
  shows "extract_text_content str_of document = Some (preserve_code_formatting (py_str str_of v))"
  using alias_loop_hit [OF assms] by simp

lemma truthy_values:
  "truthy v = (v \<notin> {VNone, VBool False, VInt 0, VStr [], VList [], VDict []})"
  by (cases v) auto

lemma nonempty_field_values:
  "nonempty_field document f =
     (case map_of document f of
        None \<Rightarrow> False
      | Some v \<Rightarrow> v \<notin> {VNone, VBool False, VInt 0, VStr [], VList [], VDict []})"
  by (simp add: nonempty_field_def truthy_values split: option.split)

lemma dec_0: "dec 0 = ''0''"
  by (simp add: dec.simps digit_char_def)

lemma dec_42: "dec 42 = ''42''"
  by (simp add: dec.simps digit_char_def)

lemma formatting_42: "preserve_code_formatting ''42'' = ''42''"
  by (simp add: preserve_code_formatting_def splitlines_def is_linebreak_def is_space_def)

lemma formatting_0: "preserve_code_formatting ''0'' = ''0''"
  by (simp add: preserve_code_formatting_def splitlines_def is_linebreak_def is_space_def)

text \<open>
  Claim C7, as stated, fails: in the record with value 0 and snippet "x" the first alias
  field that is present and non-empty in the words of the claim is value, whose
  stringification is "0", yet extraction returns "x". The test of the source is the truth
  test, under which 0 is passed over like the empty string.
\<close>

theorem zero_alias_value_skipped:
  "List.find (spec_nonempty_field [(''value'', VInt 0), (''snippet'', VStr ''x'')]) text_fields
     = Some ''value''
   \<and> map_of [(''value'', VInt 0), (''snippet'', VStr ''x'')] ''value'' = Some (VInt 0)
   \<and> preserve_code_formatting (py_str str_scalar (VInt 0)) = ''0''
   \<and> extract_text_content str_scalar [(''value'', VInt 0), (''snippet'', VStr ''x'')] = Some ''x''
   \<and> extract_text_content str_scalar [(''value'', VInt 0), (''snippet'', VStr ''x'')]
       \<noteq> Some (preserve_code_formatting (py_str str_scalar (VInt 0)))"
  by (simp add: text_fields_def spec_nonempty_field_def nonempty_field_def py_str_def dec_0
      formatting_0 formatting_x)

text \<open>
  Claim C7, amended. An alias field counts when it is present and its value is true in
  the sense of the source: not None, not False, not 0, not the empty string, list or
  record. For every record with such a field, extraction returns the normalized
  stringification of the value of the first such field in the order text, content, code,
  message, body, data, value, snippet: the string itself for a string, and Python's
  rendering \<open>str_of\<close> for any other value. The result does not depend on the order of the
  record's own fields: two records with the same fields (each key once) give the same
  result. The record with code "x" and message "y" yields "x" in either field order; an
  empty text field and a value of 0 are passed over; with value 0 and data 7 the result is
  the normalized rendering of 7.
\<close>

theorem extract_text_content_alias_priority:
  "(List.find (nonempty_field document) text_fields = Some field \<and> map_of document field = Some v
      \<longrightarrow> extract_text_content str_of document
            = Some (preserve_code_formatting (case v of VStr s \<Rightarrow> s | _ \<Rightarrow> str_of v)))
   \<and> nonempty_field document f =
        (case map_of document f of
           None \<Rightarrow> False
         | Some w \<Rightarrow> w \<notin> {VNone, VBool False, VInt 0, VStr [], VList [], VDict []})
   \<and> (List.find (nonempty_field document) text_fields = Some field
        \<and> distinct (map fst document) \<and> distinct (map fst document')
        \<and> set document' = set document
      \<longrightarrow> extract_text_content str_of document' = extract_text_content str_of document)
   \<and> extract_text_content str_of [(''code'', VStr ''x''), (''message'', VStr ''y'')] = Some ''x''
   \<and> extract_text_content str_of [(''message'', VStr ''y''), (''code'', VStr ''x'')] = Some ''x''
   \<and> extract_text_content str_of [(''text'', VStr []), (''code'', VStr ''x'')] = Some ''x''
   \<and> extract_text_content str_of [(''value'', VInt 0), (''snippet'', VStr ''x'')] = Some ''x''
   \<and> extract_text_content str_of [(''value'', VInt 0), (''data'', VInt 7)]
       = Some (preserve_code_formatting (str_of (VInt 7)))"
proof -
  have a: "List.find (nonempty_field document) text_fields = Some field \<and> map_of document field = Some v
      \<longrightarrow> extract_text_content str_of document
            = Some (preserve_code_formatting (case v of VStr s \<Rightarrow> s | _ \<Rightarrow> str_of v))"
    using extract_alias_hit [of document field v str_of] by (simp add: py_str_def)
  have b: "extract_text_content str_of document' = extract_text_content str_of document"
    if h: "List.find (nonempty_field document) text_fields = Some field"
      and d: "distinct (map fst document)" "distinct (map fst document')"
      and s: "set document' = set document"
  proof -
    have m: "map_of document' = map_of document"
      using d s by (simp add: map_of_inject_set)
    from h have "nonempty_field document field"
      by (auto simp: find_Some_iff)
    then obtain w where w: "map_of document field = Some w"
      by (auto simp: nonempty_field_def split: option.splits)
    have "alias_loop str_of text_fields document = Some (preserve_code_formatting (py_str str_of w))"
      using alias_loop_hit [OF h w] .
    moreover have "alias_loop str_of text_fields document' = alias_loop str_of text_fields document"
      using alias_loop_map_of [OF m] .
    ultimately show ?thesis by simp
  qed
  have c: "extract_text_content str_of [(''code'', VStr ''x''), (''message'', VStr ''y'')] = Some ''x''"
    by (simp add: text_fields_def nonempty_field_def py_str_def formatting_x)
  have d: "extract_text_content str_of [(''message'', VStr ''y''), (''code'', VStr ''x'')] = Some ''x''"
    by (simp add: text_fields_def nonempty_field_def py_str_def formatting_x)
  have e: "extract_text_content str_of [(''text'', VStr []), (''code'', VStr ''x'')] = Some ''x''"
    by (simp add: text_fields_def nonempty_field_def py_str_def formatting_x)
  have f: "extract_text_content str_of [(''value'', VInt 0), (''snippet'', VStr ''x'')] = Some ''x''"
    by (simp add: text_fields_def nonempty_field_def py_str_def formatting_x)
  have g: "extract_text_content str_of [(''value'', VInt 0), (''data'', VInt 7)]
       = Some (preserve_code_formatting (str_of (VInt 7)))"
    by (simp add: text_fields_def nonempty_field_def py_str_def)
  show ?thesis using a b c d e f g nonempty_field_values [of document f] by blast
qed

text \<open>
  The theorem at a record whose first counting alias field holds the integer 42 and comes
  last in the record, with 0 under an earlier alias: the result is "42" in either field
  order.
\<close>

theorem extract_text_content_alias_priority_witness:
  "List.find (nonempty_field
       [(''note'', VInt 7), (''data'', VInt 0), (''snippet'', VStr ''x''), (''value'', VInt 42)])
     text_fields = Some ''value''
   \<and> extract_text_content str_scalar
       [(''note'', VInt 7), (''data'', VInt 0), (''snippet'', VStr ''x''), (''value'', VInt 42)]
     = Some ''42''
   \<and> extract_text_content str_scalar
       [(''value'', VInt 42), (''snippet'', VStr ''x''), (''data'', VInt 0), (''note'', VInt 7)]
     = Some ''42''"
  using extract_text_content_alias_priority
    [of "[(''note'', VInt 7), (''data'', VInt 0), (''snippet'', VStr ''x''), (''value'', VInt 42)]"
        "''value''" "VInt 42" str_scalar "''value''"
        "[(''value'', VInt 42), (''snippet'', VStr ''x''), (''data'', VInt 0), (''note'', VInt 7)]"]
  by (simp add: text_fields_def nonempty_field_def py_str_def dec_42 formatting_42 formatting_x)

lemma items_loop_skip:
  "list_all (inert str_of) pre \<Longrightarrow> items_loop str_of (pre @ rest) = items_loop str_of rest"
proof (induction pre)
  case Nil
  then show ?case by simp
next
  case (Cons kv pre)
  obtain k v where kv: "kv = (k, v)" by (cases kv)
  from Cons.prems have i: "inert str_of (k, v)" and r: "list_all (inert str_of) pre"
    by (simp_all add: kv)
  have "items_loop str_of ((k, v) # pre @ rest) = items_loop str_of (pre @ rest)"
    using i by (cases v) (auto simp: inert_def simp del: extract_text_content.simps split: option.splits)
  then show ?case using Cons.IH [OF r] by (simp add: kv)
qed

lemma items_loop_find:
  "items_loop str_of document =
     (case List.find (\<lambda>kv. \<not> inert str_of kv) document of
        None \<Rightarrow> None
      | Some kv \<Rightarrow>
          (case snd kv of
             VStr s \<Rightarrow> Some (preserve_code_formatting s)
           | VDict d \<Rightarrow> extract_text_content str_of d
           | _ \<Rightarrow> None))"
proof (induction document)
  case Nil
  then show ?case by simp
next
  case (Cons kv document)
  obtain k v where kv: "kv = (k, v)" by (cases kv)
  show ?case
  proof (cases "inert str_of (k, v)")
    case True
    have "items_loop str_of ((k, v) # document) = items_loop str_of document"
      using items_loop_skip [of str_of "[(k, v)]" document] True by simp
    then show ?thesis using True Cons.IH by (simp add: kv)
  next
    case False
    then have "items_loop str_of ((k, v) # document) =
       (case v of VStr s \<Rightarrow> Some (preserve_code_formatting s)
        | VDict d \<Rightarrow> extract_text_content str_of d | _ \<Rightarrow> None)"
      by (cases v) (auto simp: inert_def simp del: extract_text_content.simps split: option.splits)
    then show ?thesis using False by (simp add: kv)
  qed
qed

lemma extract_no_alias:
  "List.find (nonempty_field document) text_fields = None \<Longrightarrow>
   extract_text_content str_of document = items_loop str_of document"
  by (simp add: alias_loop_miss)

lemma formatting_long:
  "preserve_code_formatting ''this is a sufficiently long string'' = ''this is a sufficiently long string''"
  by (simp add: preserve_code_formatting_def splitlines_def is_linebreak_def is_space_def)

text \<open>
  Claim C8, as stated, fails: the record with a nested record under meta (holding code "x")
  followed by foo, a string of more than 10 characters, has no non-empty alias field, yet
  extraction returns "x" and not the long string, because the scan of the fields recurses
  into a nested record as soon as it meets one.
\<close>

theorem extract_text_content_nested_before_string:
  "List.find (nonempty_field
       [(''meta'', VDict [(''code'', VStr ''x'')]), (''foo'', VStr ''this is a sufficiently long string'')])
     text_fields = None
   \<and> extract_text_content no_render
       [(''meta'', VDict [(''code'', VStr ''x'')]), (''foo'', VStr ''this is a sufficiently long string'')]
     = Some ''x''
   \<and> extract_text_content no_render
       [(''meta'', VDict [(''code'', VStr ''x'')]), (''foo'', VStr ''this is a sufficiently long string'')]
     \<noteq> Some (preserve_code_formatting ''this is a sufficiently long string'')"
  by (simp add: text_fields_def nonempty_field_def py_str_def formatting_x formatting_long
      startswith_underscore_def)

text \<open>
  Claim C8, amended. For every record with no non-empty alias field, extraction scans the
  fields in their order and returns, normalized, the first string longer than 10
  characters under a key that does not begin with an underscore, provided every field
  before it is passed over (\<open>inert\<close>: the key begins with an underscore, or the value is a
  string of at most 10 characters, or a nested record from which extraction yields nothing
  or the empty string, or a value of another type). When every field is passed over, the
  result is absent. The record with foo holding "this is a sufficiently long string" yields
  that string, and the record with foo holding "short" yields absence.
\<close>

theorem extract_text_content_fallback:
  "(List.find (nonempty_field document) text_fields = None
      \<and> document = pre @ (key, VStr s) # post \<and> list_all (inert str_of) pre
      \<and> \<not> startswith_underscore key \<and> 10 < length s
      \<longrightarrow> extract_text_content str_of document = Some (preserve_code_formatting s))
   \<and> (List.find (nonempty_field document) text_fields = None \<and> list_all (inert str_of) document
      \<longrightarrow> extract_text_content str_of document = None)
   \<and> extract_text_content str_of [(''foo'', VStr ''this is a sufficiently long string'')]
       = Some ''this is a sufficiently long string''
   \<and> extract_text_content str_of [(''foo'', VStr ''short'')] = None"
proof -
  have a: "extract_text_content str_of document = Some (preserve_code_formatting s)"
    if "List.find (nonempty_field document) text_fields = None"
      and "document = pre @ (key, VStr s) # post" and "list_all (inert str_of) pre"
      and "\<not> startswith_underscore key" and "10 < length s"
  proof -
    have "items_loop str_of document = items_loop str_of ((key, VStr s) # post)"
      using that(2,3) items_loop_skip by simp
    then show ?thesis using that(1,4,5) extract_no_alias [of document str_of] by simp
  qed
  have b: "extract_text_content str_of document = None"
    if "List.find (nonempty_field document) text_fields = None" and "list_all (inert str_of) document"
  proof -
    have "items_loop str_of (document @ []) = items_loop str_of []"
      using that(2) by (rule items_loop_skip)
    then show ?thesis using that(1) extract_no_alias [of document str_of] by simp
  qed
  have c: "extract_text_content str_of [(''foo'', VStr ''this is a sufficiently long string'')]
       = Some ''this is a sufficiently long string''"
    by (simp add: text_fields_def nonempty_field_def formatting_long startswith_underscore_def)
  have d: "extract_text_content str_of [(''foo'', VStr ''short'')] = None"
    by (simp add: text_fields_def nonempty_field_def startswith_underscore_def)
  show ?thesis using a b c d by blast
qed

text \<open>
  The theorem at a record with an underscore key, an empty alias field, a short string and
  a nested record without payload before the first long string, and at a record where
  every field is passed over.
\<close>

theorem extract_text_content_fallback_witness:
  "extract_text_content no_render
     [(''_id'', VStr ''an internal long string''), (''text'', VStr []), (''tag'', VStr ''short''),
      (''meta'', VDict [(''n'', VInt 3)]), (''notes'', VStr ''this is a sufficiently long string''),
      (''later'', VStr ''another long string value'')]
     = Some ''this is a sufficiently long string''
   \<and> extract_text_content no_render [(''_key'', VStr ''an internal long string''), (''n'', VInt 3)] = None"
proof -
  have n1: "List.find (nonempty_field
     [(''_id'', VStr ''an internal long string''), (''text'', VStr []), (''tag'', VStr ''short''),
      (''meta'', VDict [(''n'', VInt 3)]), (''notes'', VStr ''this is a sufficiently long string''),
      (''later'', VStr ''another long string value'')]) text_fields = None"
    by (simp add: text_fields_def nonempty_field_def)
  have n2: "List.find (nonempty_field [(''_key'', VStr ''an internal long string''), (''n'', VInt 3)])
      text_fields = None"
    by (simp add: text_fields_def nonempty_field_def)
  have i1: "list_all (inert no_render)
     [(''_id'', VStr ''an internal long string''), (''text'', VStr []), (''tag'', VStr ''short''),
      (''meta'', VDict [(''n'', VInt 3)])]"
    by (simp add: inert_def startswith_underscore_def text_fields_def nonempty_field_def)
  have i2: "list_all (inert no_render) [(''_key'', VStr ''an internal long string''), (''n'', VInt 3)]"
    by (simp add: inert_def startswith_underscore_def)
  have k: "\<not> startswith_underscore ''notes''" "10 < length ''this is a sufficiently long string''"
    by (simp_all add: startswith_underscore_def)
  show ?thesis
    using extract_text_content_fallback
      [of "[(''_id'', VStr ''an internal long string''), (''text'', VStr []), (''tag'', VStr ''short''),
      (''meta'', VDict [(''n'', VInt 3)]), (''notes'', VStr ''this is a sufficiently long string''),
      (''later'', VStr ''another long string value'')]"
        "[(''_id'', VStr ''an internal long string''), (''text'', VStr []), (''tag'', VStr ''short''),
      (''meta'', VDict [(''n'', VInt 3)])]" "''notes''" "''this is a sufficiently long string''"
        "[(''later'', VStr ''another long string value'')]" no_render]
      extract_text_content_fallback
      [of "[(''_key'', VStr ''an internal long string''), (''n'', VInt 3)]" "[]" "''k''" "''s''" "[]" no_render]
      n1 n2 i1 i2 k formatting_long
    by (simp del: extract_text_content.simps)
qed

lemma formatting_nested_note:
  "preserve_code_formatting ''a nested long note'' = ''a nested long note''"
  by (simp add: preserve_code_formatting_def splitlines_def is_linebreak_def is_space_def)

lemma formatting_top_level:
  "preserve_code_formatting ''a top-level long string'' = ''a top-level long string''"
  by (simp add: preserve_code_formatting_def splitlines_def is_linebreak_def is_space_def)

text \<open>
  Claim C9, as stated, fails: in the record with a nested record under details (holding a
  note of more than 10 characters) followed by summary, a string of more than 10
  characters of the record itself, the nested note is returned, not the record's own
  string. The scan for long strings is not completed before nested records are entered.
\<close>

theorem extract_text_content_steps_interleaved:
  "List.find (nonempty_field
       [(''details'', VDict [(''note'', VStr ''a nested long note'')]),
        (''summary'', VStr ''a top-level long string'')]) text_fields = None
   \<and> extract_text_content no_render
       [(''details'', VDict [(''note'', VStr ''a nested long note'')]),
        (''summary'', VStr ''a top-level long string'')]
     = Some ''a nested long note''
   \<and> extract_text_content no_render
       [(''details'', VDict [(''note'', VStr ''a nested long note'')]),
        (''summary'', VStr ''a top-level long string'')]
     \<noteq> Some (preserve_code_formatting ''a top-level long string'')"
  by (simp add: text_fields_def nonempty_field_def formatting_nested_note formatting_top_level
      startswith_underscore_def)

text \<open>
  Claim C9, amended. For every record with no non-empty alias field, the scan for long
  strings and the recursion into nested records are one pass over the fields in their
  order: the first field that is not passed over decides the result, which is the
  normalized string when that field holds a string and the payload of the nested record
  when it holds a record. So a long string of the record wins over a nested record that
  comes later in field order, and a nested record that yields a non-empty payload wins
  over a long string that comes later.
\<close>

theorem extract_text_content_single_pass:
  "(List.find (nonempty_field document) text_fields = None \<longrightarrow>
      extract_text_content str_of document =
        (case List.find (\<lambda>kv. \<not> inert str_of kv) document of
           None \<Rightarrow> None
         | Some kv \<Rightarrow>
             (case snd kv of
                VStr s \<Rightarrow> Some (preserve_code_formatting s)
              | VDict d \<Rightarrow> extract_text_content str_of d
              | _ \<Rightarrow> None)))
   \<and> extract_text_content str_of
       [(''summary'', VStr ''a top-level long string''),
        (''details'', VDict [(''note'', VStr ''a nested long note'')])]
     = Some ''a top-level long string''
   \<and> extract_text_content str_of
       [(''details'', VDict [(''note'', VStr ''a nested long note'')]),
        (''summary'', VStr ''a top-level long string'')]
     = Some ''a nested long note''"
proof -
  have a: "List.find (nonempty_field document) text_fields = None \<longrightarrow>
      extract_text_content str_of document =
        (case List.find (\<lambda>kv. \<not> inert str_of kv) document of
           None \<Rightarrow> None
         | Some kv \<Rightarrow>
             (case snd kv of
                VStr s \<Rightarrow> Some (preserve_code_formatting s)
              | VDict d \<Rightarrow> extract_text_content str_of d
              | _ \<Rightarrow> None))"
    using extract_no_alias [of document str_of] items_loop_find [of str_of document] by simp
  have b: "extract_text_content str_of
       [(''summary'', VStr ''a top-level long string''),
        (''details'', VDict [(''note'', VStr ''a nested long note'')])]
     = Some ''a top-level long string''"
    by (simp add: text_fields_def nonempty_field_def formatting_top_level startswith_underscore_def)
  have c: "extract_text_content str_of
       [(''details'', VDict [(''note'', VStr ''a nested long note'')]),
        (''summary'', VStr ''a top-level long string'')]
     = Some ''a nested long note''"
    by (simp add: text_fields_def nonempty_field_def formatting_nested_note startswith_underscore_def)
  show ?thesis using a b c by blast
qed

text \<open>The theorem at a record whose first deciding field is a nested record.\<close>

theorem extract_text_content_single_pass_witness:
  "List.find (nonempty_field [(''tag'', VStr ''short''), (''details'', VDict [(''code'', VStr ''x'')]),
       (''summary'', VStr ''a top-level long string'')]) text_fields = None
   \<and> List.find (\<lambda>kv. \<not> inert no_render kv)
       [(''tag'', VStr ''short''), (''details'', VDict [(''code'', VStr ''x'')]),
        (''summary'', VStr ''a top-level long string'')]
     = Some (''details'', VDict [(''code'', VStr ''x'')])
   \<and> extract_text_content no_render
       [(''tag'', VStr ''short''), (''details'', VDict [(''code'', VStr ''x'')]),
        (''summary'', VStr ''a top-level long string'')] = Some ''x''"
proof -
  have n: "List.find (nonempty_field [(''tag'', VStr ''short''), (''details'', VDict [(''code'', VStr ''x'')]),
       (''summary'', VStr ''a top-level long string'')]) text_fields = None"
    by (simp add: text_fields_def nonempty_field_def)
  have x: "extract_text_content no_render [(''code'', VStr ''x'')] = Some ''x''"
    by (simp add: text_fields_def nonempty_field_def py_str_def formatting_x)
  have f: "List.find (\<lambda>kv. \<not> inert no_render kv)
       [(''tag'', VStr ''short''), (''details'', VDict [(''code'', VStr ''x'')]),
        (''summary'', VStr ''a top-level long string'')]
     = Some (''details'', VDict [(''code'', VStr ''x'')])"
    using x by (simp add: inert_def startswith_underscore_def del: extract_text_content.simps)
  show ?thesis
    using extract_text_content_single_pass
      [of "[(''tag'', VStr ''short''), (''details'', VDict [(''code'', VStr ''x'')]),
        (''summary'', VStr ''a top-level long string'')]" no_render] n f x
    by (simp del: extract_text_content.simps)
qed

section \<open>Admission, order of processing and the seen-set\<close>

lemma filter_loop_fresh:
  "filter_loop docs acc st =
     (acc @ fresh docs (processed_ids st),
      st\<lparr>processed_ids := processed_ids st \<union> oid ` set docs\<rparr>)"
proof (induction docs arbitrary: acc st)
  case Nil
  then show ?case by simp
next
  case (Cons d docs)
  show ?case
  proof (cases "oid d \<in> processed_ids st")
    case True
    then have "processed_ids st \<union> oid ` set (d # docs) = processed_ids st \<union> oid ` set docs"
      by auto
    then show ?thesis using True Cons.IH [of acc st] by (simp add: Let_def)
  next
    case False
    have "insert (oid d) (processed_ids st) \<union> oid ` set docs = processed_ids st \<union> oid ` set (d # docs)"
      by auto
    then show ?thesis
      using False Cons.IH [of "acc @ [d]" "st\<lparr>processed_ids := insert (oid d) (processed_ids st)\<rparr>"]
      by (simp add: Let_def)
  qed
qed

lemma fresh_subset: "set (fresh docs seen) \<subseteq> set docs"
  by (induction docs arbitrary: seen) auto

lemma fresh_ids: "oid ` set (fresh docs seen) = oid ` set docs - seen"
  by (induction docs arbitrary: seen) auto


lemma fresh_descending:
  "sorted_wrt (\<lambda>a b. oid b \<le> oid a) docs \<Longrightarrow> sorted_wrt (\<lambda>a b. oid b < oid a) (fresh docs seen)"
proof (induction docs arbitrary: seen)
  case Nil
  then show ?case by simp
next
  case (Cons d docs)
  from Cons.prems have le: "\<forall>x\<in>set docs. oid x \<le> oid d" and s: "sorted_wrt (\<lambda>a b. oid b \<le> oid a) docs"
    by simp_all
  have "oid x < oid d" if "x \<in> set (fresh docs (insert (oid d) seen))" for x
  proof -
    have "x \<in> set docs" using that fresh_subset by blast
    then have "oid x \<le> oid d" using le by blast
    moreover have "oid x \<in> oid ` set docs - insert (oid d) seen"
      using that fresh_ids [of docs "insert (oid d) seen"] by blast
    ultimately show ?thesis by auto
  qed
  then show ?case using Cons.IH [OF s] by simp
qed

lemma get_new_documents_cases:
  "get_new_documents v s st =
     (case fetch v s st of
        Inl e \<Rightarrow> ([], st)
      | Inr batch \<Rightarrow>
          (fresh batch (processed_ids st),
           st\<lparr>processed_ids := processed_ids st \<union> oid ` set batch\<rparr>))"
  by (simp add: get_new_documents_def filter_loop_fresh split: sum.splits)

lemma get_new_documents_trace: "trace (snd (get_new_documents v s st)) = trace st"
  by (simp add: get_new_documents_cases split: sum.splits)


lemma get_new_documents_superset:
  "processed_ids st \<subseteq> processed_ids (snd (get_new_documents v s st))"
  by (simp add: get_new_documents_cases split: sum.splits)

lemma get_new_documents_unseen:
  "oid ` set (fst (get_new_documents v s st)) \<inter> processed_ids st = {}"
  using fresh_ids by (auto simp add: get_new_documents_cases split: sum.splits)


lemma processing_order_append:
  "processing_order (xs @ ys) = processing_order xs @ processing_order ys"
  by (induction xs rule: processing_order.induct) simp_all

lemma process_document_seen [simp]:
  "processed_ids (process_document str_of sink d st) = processed_ids st"
  by (simp add: process_document_def copy_to_clipboard_def Let_def split: option.splits)

lemma process_document_order:
  "processing_order (trace (process_document str_of sink d st)) =
     processing_order (trace st) @ [oid d]"
  by (simp add: process_document_def copy_to_clipboard_def Let_def processing_order_append
      split: option.splits)

lemma process_document_v_seen [simp]:
  "processed_ids (process_document_v v str_of sink d st) = processed_ids st"
  by (cases v)
     (simp_all add: process_document_v_def enh_process_document_def Let_def split: option.splits)

lemma enh_process_document_trace:
  "trace (enh_process_document str_of sink d st) = trace (process_document str_of sink d st)"
  by (simp add: enh_process_document_def Let_def split: option.splits)

lemma process_document_v_order:
  "processing_order (trace (process_document_v v str_of sink d st)) =
     processing_order (trace st) @ [oid d]"
  by (cases v)
     (simp_all add: process_document_v_def enh_process_document_trace process_document_order)

lemma process_all_seen [simp]:
  "processed_ids (process_all v str_of sink ds st) = processed_ids st"
  by (induction ds arbitrary: st) simp_all

lemma process_all_order:
  "processing_order (trace (process_all v str_of sink ds st)) =
     processing_order (trace st) @ map oid ds"
  by (induction ds arbitrary: st) (simp_all add: process_document_v_order)

lemma poll_for_changes_seen:
  "processed_ids (poll_for_changes v str_of sink env st) =
     processed_ids (snd (get_new_documents v (store_now env) st))"
  by (simp add: poll_for_changes_def Let_def split: prod.splits)

lemma poll_for_changes_order:
  "processing_order (trace (poll_for_changes v str_of sink env st)) =
     processing_order (trace st) @ rev (map oid (fst (get_new_documents v (store_now env) st)))"
proof -
  obtain docs st1 where g: "get_new_documents v (store_now env) st = (docs, st1)"
    by (cases "get_new_documents v (store_now env) st")
  have t: "trace st1 = trace st"
    using get_new_documents_trace [of v "store_now env" st] g by simp
  show ?thesis
    using g t by (simp add: poll_for_changes_def Let_def process_all_order rev_map)
qed








lemma poll_for_changes_trace_eq:
  "trace (poll_for_changes v str_of sink env st) =
     trace (process_all v str_of sink (rev (fst (get_new_documents v (store_now env) st)))
              (snd (get_new_documents v (store_now env) st)))"
proof -
  obtain docs st1 where g: "get_new_documents v (store_now env) st = (docs, st1)"
    by (cases "get_new_documents v (store_now env) st")
  show ?thesis
    using g by (cases "docs = []") (simp_all add: poll_for_changes_def Let_def)
qed



lemma consistent_update [simp]:
  "consistent (st\<lparr>is_monitoring := b\<rparr>) = consistent st"
  "consistent (st\<lparr>last_check_time := t\<rparr>) = consistent st"
  "consistent (st\<lparr>start_time := t\<rparr>) = consistent st"
  by (simp_all add: consistent_def)




lemma formatting_a: "preserve_code_formatting ''a = 1'' = ''a = 1''"
  by (simp add: preserve_code_formatting_def splitlines_def is_linebreak_def is_space_def)

lemma formatting_b: "preserve_code_formatting ''b = 2'' = ''b = 2''"
  by (simp add: preserve_code_formatting_def splitlines_def is_linebreak_def is_space_def)

lemma two_cycle_trace:
  "trace (lifetime Enhanced no_render sink_up [two_cycle_run] (init_monitor [(''type'', VStr ''code'')]))
   = [Processing (105 * 2 ^ 64 + 5), Copy ''b = 2'' True,
      Processing (105 * 2 ^ 64 + 3), Copy ''a = 1'' True]"
  by (simp add: start_monitoring_def base_start_monitoring_def stop_monitoring_def
      poll_for_changes_def get_new_documents_def fetch_def enh_query_def from_datetime_def
      find_sort_limit_def matches_def to_dict_def init_monitor_def doc_a_def doc_b_def
      two_cycle_run_def
      process_document_v_def enh_process_document_def process_document_def copy_to_clipboard_def
      attempts_def sink_up_def text_fields_def nonempty_field_def py_str_def
      formatting_a formatting_b Let_def)



text \<open>
  Claim C3, as stated, fails across cycles: in \<open>two_cycle_run\<close> the first cycle finds
  \<open>doc_b\<close>, and the second cycle finds \<open>doc_a\<close> as well, whose identifier is smaller
  and lies above the bound of the second query (an identifier of the same second, written
  after the first poll). Both are admitted, and \<open>doc_b\<close> is processed and delivered
  before \<open>doc_a\<close>.
\<close>

theorem later_identifier_delivered_first:
  "processing_order
       (trace (lifetime Enhanced no_render sink_up [two_cycle_run]
                 (init_monitor [(''type'', VStr ''code'')])))
     = [oid doc_b, oid doc_a]
   \<and> deliveries
       (trace (lifetime Enhanced no_render sink_up [two_cycle_run]
                 (init_monitor [(''type'', VStr ''code'')])))
     = [(oid doc_b, ''b = 2''), (oid doc_a, ''a = 1'')]
   \<and> oid doc_a < oid doc_b"
  unfolding two_cycle_trace by (simp add: doc_a_def doc_b_def deliveries_def)

lemma find_sort_limit_descending:
  "find_sort_limit q s = Inr batch \<Longrightarrow> sorted_wrt (\<lambda>a b. oid b \<le> oid a) batch"
proof -
  assume h: "find_sort_limit q s = Inr batch"
  then obtain coll where b: "batch = take 100 (rev (sort_key oid (filter (matches q) coll)))"
    by (auto simp: find_sort_limit_def split: option.splits)
  have "sorted (map oid (sort_key oid (filter (matches q) coll)))"
    by (rule sorted_sort_key)
  then have "sorted_wrt (\<lambda>a b. oid a \<le> oid b) (sort_key oid (filter (matches q) coll))"
    by (simp add: sorted_wrt_map)
  then have "sorted_wrt (\<lambda>a b. oid b \<le> oid a) (rev (sort_key oid (filter (matches q) coll)))"
    by (simp add: sorted_wrt_rev)
  then show ?thesis unfolding b by (rule sorted_wrt_take)
qed

lemma fetch_descending:
  "fetch v s st = Inr batch \<Longrightarrow> sorted_wrt (\<lambda>a b. oid b \<le> oid a) batch"
  by (auto simp: fetch_def split: sum.splits dest: find_sort_limit_descending)

lemma get_new_documents_descending:
  "sorted_wrt (\<lambda>a b. oid b < oid a) (fst (get_new_documents v s st))"
  by (auto simp: get_new_documents_cases split: sum.splits
      intro: fresh_descending dest: fetch_descending)

lemma cycle_ascending:
  "sorted_wrt (<) (rev (map oid (fst (get_new_documents v s st))))"
  using get_new_documents_descending [of v s st]
  by (simp add: sorted_wrt_rev sorted_wrt_map)

lemma monitoring_loop_order_prefix:
  "take (length (processing_order (trace st)))
        (processing_order (trace (monitoring_loop v str_of sink envs st)))
     = processing_order (trace st)"
proof (induction envs arbitrary: st)
  case Nil
  then show ?case by simp
next
  case (Cons env envs)
  show ?case
  proof (cases "is_monitoring st")
    case False
    then show ?thesis by simp
  next
    case True
    let ?st1 = "poll_for_changes v str_of sink env st"
    let ?p = "processing_order (trace st)"
    obtain new where n: "processing_order (trace ?st1) = ?p @ new"
      using poll_for_changes_order by blast
    have "take (length (?p @ new)) (processing_order (trace (monitoring_loop v str_of sink envs ?st1)))
        = ?p @ new"
      using Cons.IH [of ?st1] by (simp only: n)
    then have "take (length ?p) (take (length (?p @ new))
        (processing_order (trace (monitoring_loop v str_of sink envs ?st1)))) = take (length ?p) (?p @ new)"
      by simp
    then have "take (length ?p) (processing_order (trace (monitoring_loop v str_of sink envs ?st1))) = ?p"
      by (simp add: min_def)
    then show ?thesis using True by simp
  qed
qed

lemma attempts_processing: "attempts (tr @ [Processing i]) = attempts tr"
  by (simp add: attempts_def)

lemma process_document_trace_payload:
  "trace (process_document str_of sink d st) =
     trace st @ Processing (oid d) #
       (if payload str_of d = [] then []
        else [Copy (payload str_of d) (sink (attempts (trace st)))])"
  by (simp add: process_document_def copy_to_clipboard_def payload_def Let_def attempts_processing
      split: option.splits)

lemma process_document_v_trace_payload:
  "trace (process_document_v v str_of sink d st) =
     trace st @ Processing (oid d) #
       (if payload str_of d = [] then []
        else [Copy (payload str_of d) (sink (attempts (trace st)))])"
  by (cases v)
     (simp_all add: process_document_v_def enh_process_document_trace process_document_trace_payload)

lemma deliveries_from_snoc:
  "deliveries_from cur (xs @ Processing i # cs) =
     deliveries_from cur xs @ deliveries_from (Some i) cs"
  by (induction cur xs rule: deliveries_from.induct) simp_all

lemma process_document_v_deliveries:
  "deliveries (trace (process_document_v v str_of sink d st)) =
     deliveries (trace st) @ (if payload str_of d = [] then [] else [(oid d, payload str_of d)])"
  by (simp add: deliveries_def process_document_v_trace_payload deliveries_from_snoc)

lemma process_all_deliveries:
  "deliveries (trace (process_all v str_of sink ds st)) =
     deliveries (trace st) @
       map (\<lambda>d. (oid d, payload str_of d)) (filter (\<lambda>d. payload str_of d \<noteq> []) ds)"
  by (induction ds arbitrary: st) (simp_all add: process_document_v_deliveries)

lemma poll_for_changes_deliveries:
  "deliveries (trace (poll_for_changes v str_of sink env st)) =
     deliveries (trace st) @
       map (\<lambda>d. (oid d, payload str_of d))
         (filter (\<lambda>d. payload str_of d \<noteq> []) (rev (fst (get_new_documents v (store_now env) st))))"
  by (simp add: poll_for_changes_trace_eq process_all_deliveries get_new_documents_trace)

lemma cycle_deliveries_ascending:
  "sorted_wrt (<)
     (map oid (filter (\<lambda>d. payload str_of d \<noteq> []) (rev (fst (get_new_documents v s st)))))"
proof -
  have "sorted_wrt (\<lambda>a b. oid a < oid b) (rev (fst (get_new_documents v s st)))"
    using get_new_documents_descending [of v s st] by (simp add: sorted_wrt_rev)
  then have "sorted_wrt (\<lambda>a b. oid a < oid b)
      (filter (\<lambda>d. payload str_of d \<noteq> []) (rev (fst (get_new_documents v s st))))"
    by (rule sorted_wrt_filter)
  then show ?thesis by (simp add: sorted_wrt_map)
qed

lemma monitoring_loop_deliveries_prefix:
  "take (length (deliveries (trace st)))
        (deliveries (trace (monitoring_loop v str_of sink envs st)))
     = deliveries (trace st)"
proof (induction envs arbitrary: st)
  case Nil
  then show ?case by simp
next
  case (Cons env envs)
  show ?case
  proof (cases "is_monitoring st")
    case False
    then show ?thesis by simp
  next
    case True
    let ?st1 = "poll_for_changes v str_of sink env st"
    let ?p = "deliveries (trace st)"
    obtain new where n: "deliveries (trace ?st1) = ?p @ new"
      using poll_for_changes_deliveries by blast
    have "take (length (?p @ new)) (deliveries (trace (monitoring_loop v str_of sink envs ?st1)))
        = ?p @ new"
      using Cons.IH [of ?st1] by (simp only: n)
    then have "take (length ?p) (take (length (?p @ new))
        (deliveries (trace (monitoring_loop v str_of sink envs ?st1)))) = take (length ?p) (?p @ new)"
      by simp
    then have "take (length ?p) (deliveries (trace (monitoring_loop v str_of sink envs ?st1))) = ?p"
      by (simp add: min_def)
    then show ?thesis using True by simp
  qed
qed

lemma formatting_one: "preserve_code_formatting ''one'' = ''one''"
  by (simp add: preserve_code_formatting_def splitlines_def is_linebreak_def is_space_def)

lemma formatting_two: "preserve_code_formatting ''two'' = ''two''"
  by (simp add: preserve_code_formatting_def splitlines_def is_linebreak_def is_space_def)

lemma formatting_three: "preserve_code_formatting ''three'' = ''three''"
  by (simp add: preserve_code_formatting_def splitlines_def is_linebreak_def is_space_def)

lemma three_one_two:
  "trace (poll_for_changes Basic str_of sink
        \<lparr>store_now = Some [labelled 3 ''three'', labelled 1 ''one'', labelled 2 ''two''], clock = t\<rparr>
        (init_monitor []))
   = [Processing 1, Copy ''one'' (sink 0), Processing 2, Copy ''two'' (sink 1),
      Processing 3, Copy ''three'' (sink 2)]"
  by (simp add: poll_for_changes_def get_new_documents_def fetch_def base_query_def
      find_sort_limit_def matches_def init_monitor_def labelled_def Let_def to_dict_def
      process_document_v_def process_document_def copy_to_clipboard_def attempts_def
      text_fields_def nonempty_field_def py_str_def formatting_one formatting_two formatting_three
      numeral_2_eq_2)

text \<open>
  Claim C3, amended. Within one poll cycle the copy attempts follow the admitted records
  that have a payload in strictly ascending order of identifier, each attempt with the
  payload of its own record, after all attempts made before the cycle; the records are
  processed in the same ascending order. What was delivered in earlier cycles stays in
  front of what later cycles deliver, whatever the identifiers. A store holding the
  records 3, 1, 2 with the texts three, one, two has the trace: processing 1, copy one,
  processing 2, copy two, processing 3, copy three.
\<close>

theorem delivery_order_within_cycle:
  "deliveries (trace (poll_for_changes v str_of sink env st))
     = deliveries (trace st) @
         map (\<lambda>d. (oid d, payload str_of d))
           (filter (\<lambda>d. payload str_of d \<noteq> [])
              (rev (fst (get_new_documents v (store_now env) st))))
   \<and> sorted_wrt (<)
        (map oid (filter (\<lambda>d. payload str_of d \<noteq> [])
           (rev (fst (get_new_documents v (store_now env) st)))))
   \<and> take (length (deliveries (trace st)))
          (deliveries (trace (monitoring_loop v str_of sink envs st)))
       = deliveries (trace st)
   \<and> processing_order (trace (poll_for_changes v str_of sink env st))
     = processing_order (trace st) @ rev (map oid (fst (get_new_documents v (store_now env) st)))
   \<and> sorted_wrt (<) (rev (map oid (fst (get_new_documents v (store_now env) st))))
   \<and> take (length (processing_order (trace st)))
          (processing_order (trace (monitoring_loop v str_of sink envs st)))
       = processing_order (trace st)
   \<and> trace (poll_for_changes Basic str_of sink
          \<lparr>store_now = Some [labelled 3 ''three'', labelled 1 ''one'', labelled 2 ''two''], clock = t\<rparr>
          (init_monitor []))
     = [Processing 1, Copy ''one'' (sink 0), Processing 2, Copy ''two'' (sink 1),
        Processing 3, Copy ''three'' (sink 2)]
   \<and> deliveries (trace (poll_for_changes Basic str_of sink
          \<lparr>store_now = Some [labelled 3 ''three'', labelled 1 ''one'', labelled 2 ''two''], clock = t\<rparr>
          (init_monitor [])))
     = [(1, ''one''), (2, ''two''), (3, ''three'')]"
proof -
  have ex: "deliveries (trace (poll_for_changes Basic str_of sink
          \<lparr>store_now = Some [labelled 3 ''three'', labelled 1 ''one'', labelled 2 ''two''], clock = t\<rparr>
          (init_monitor [])))
     = [(1, ''one''), (2, ''two''), (3, ''three'')]"
    unfolding three_one_two by (simp add: deliveries_def)
  show ?thesis
    using poll_for_changes_deliveries [of v str_of sink env st]
      cycle_deliveries_ascending [of str_of v "store_now env" st]
      monitoring_loop_deliveries_prefix [of st v str_of sink envs]
      poll_for_changes_order [of v str_of sink env st] cycle_ascending [of v "store_now env" st]
      monitoring_loop_order_prefix [of st v str_of sink envs] three_one_two [of str_of sink t] ex
    by blast
qed

text \<open>
  The theorem at a poll of a store with \<open>doc_b\<close>, a record without payload and \<open>doc_a\<close>:
  the deliveries are those of \<open>doc_a\<close> and \<open>doc_b\<close>, in this order.
\<close>

theorem delivery_order_within_cycle_witness:
  "deliveries (trace (poll_for_changes Enhanced no_render sink_fails_first
        \<lparr>store_now = Some [doc_b, labelled 7 [], doc_a], clock = 106\<rparr> (init_monitor [])))
     = [(oid doc_a, ''a = 1''), (oid doc_b, ''b = 2'')]
   \<and> processing_order (trace (poll_for_changes Enhanced no_render sink_fails_first
        \<lparr>store_now = Some [doc_b, labelled 7 [], doc_a], clock = 106\<rparr> (init_monitor [])))
     = [7, oid doc_a, oid doc_b]
   \<and> sorted_wrt (<) [7, oid doc_a, oid doc_b]"
proof -
  have g: "fst (get_new_documents Enhanced (Some [doc_b, labelled 7 [], doc_a]) (init_monitor []))
      = [doc_b, doc_a, labelled 7 []]"
    by (simp add: get_new_documents_def fetch_def enh_query_def find_sort_limit_def matches_def
        init_monitor_def doc_a_def doc_b_def labelled_def Let_def)
  have p: "payload no_render doc_a = ''a = 1''" "payload no_render doc_b = ''b = 2''"
    "payload no_render (labelled 7 []) = []"
    by (simp_all add: payload_def to_dict_def doc_a_def doc_b_def labelled_def text_fields_def
        nonempty_field_def py_str_def formatting_a formatting_b startswith_underscore_def)
  have e: "deliveries (trace (init_monitor [])) = []" "processing_order (trace (init_monitor [])) = []"
    by (simp_all add: init_monitor_def deliveries_def)
  have s: "oid (labelled 7 []) = 7" "7 < oid doc_a" "7 < oid doc_b" "oid doc_a < oid doc_b"
    by (simp_all add: labelled_def doc_a_def doc_b_def)
  show ?thesis
    using delivery_order_within_cycle
      [of Enhanced no_render sink_fails_first
          "\<lparr>store_now = Some [doc_b, labelled 7 [], doc_a], clock = 106\<rparr>" "init_monitor []" "[]" 0]
    by (simp add: g p e s)
qed

lemma poll_for_changes_superset:
  "processed_ids st \<subseteq> processed_ids (poll_for_changes v str_of sink env st)"
  using get_new_documents_superset [of st v "store_now env"] by (simp add: poll_for_changes_seen)

lemma monitoring_loop_superset:
  "processed_ids st \<subseteq> processed_ids (monitoring_loop v str_of sink envs st)"
proof (induction envs arbitrary: st)
  case Nil
  then show ?case by simp
next
  case (Cons env envs)
  show ?case
    using Cons.IH [of "poll_for_changes v str_of sink env st"]
      poll_for_changes_superset [of st v str_of sink env]
    by auto
qed

lemma start_monitoring_superset:
  "processed_ids st \<subseteq> processed_ids (start_monitoring v str_of sink r st)"
proof (cases v)
  case Basic
  show ?thesis
    using monitoring_loop_superset
      [of "st\<lparr>is_monitoring := True, last_check_time := Some (start_clock r - 5)\<rparr>" v str_of sink "cycles r"]
    by (simp add: Basic start_monitoring_def base_start_monitoring_def stop_monitoring_def Let_def)
next
  case Enhanced
  show ?thesis
    using monitoring_loop_superset
      [of "st\<lparr>start_time := Some (stats_clock r), is_monitoring := True,
              last_check_time := Some (start_clock r - 5)\<rparr>" v str_of sink "cycles r"]
    by (simp add: Enhanced start_monitoring_def base_start_monitoring_def stop_monitoring_def Let_def)
qed

lemma lifetime_superset:
  "processed_ids st \<subseteq> processed_ids (lifetime v str_of sink runs st)"
proof (induction runs arbitrary: st)
  case Nil
  then show ?case by simp
next
  case (Cons r runs)
  show ?case
    using Cons.IH [of "start_monitoring v str_of sink r st"]
      start_monitoring_superset [of st v str_of sink r]
    by auto
qed

lemma fetched_seen:
  "fetch v s st = Inr batch \<Longrightarrow> d \<in> set batch \<Longrightarrow>
   oid d \<in> processed_ids (snd (get_new_documents v s st))"
  by (simp add: get_new_documents_cases)

text \<open>
  Claim C10. The identifier of every record the store returns is put into the seen-set by
  \<open>get_new_documents\<close>, which leaves the trace as it was: no extraction and no delivery
  has been attempted at that moment. The identifier is still in the seen-set after the
  cycle, after any further cycles and after any later runs of the same monitor, whatever
  extraction found and whatever the sink answered, and no later call of
  \<open>get_new_documents\<close> returns a record with that identifier.
\<close>

theorem fetched_identifier_stays_seen:
  "fetch v (store_now env) st = Inr batch \<and> d \<in> set batch \<longrightarrow>
     oid d \<in> processed_ids (snd (get_new_documents v (store_now env) st))
     \<and> trace (snd (get_new_documents v (store_now env) st)) = trace st
     \<and> oid d \<in> processed_ids (poll_for_changes v str_of sink env st)
     \<and> oid d \<in> processed_ids
         (lifetime v str_of sink runs
            (monitoring_loop v str_of sink envs (poll_for_changes v str_of sink env st)))
     \<and> oid d \<notin> oid ` set (fst (get_new_documents v s
         (lifetime v str_of sink runs
            (monitoring_loop v str_of sink envs (poll_for_changes v str_of sink env st)))))"
proof
  assume h: "fetch v (store_now env) st = Inr batch \<and> d \<in> set batch"
  let ?st1 = "poll_for_changes v str_of sink env st"
  let ?st2 = "lifetime v str_of sink runs (monitoring_loop v str_of sink envs ?st1)"
  have a: "oid d \<in> processed_ids (snd (get_new_documents v (store_now env) st))"
    using h fetched_seen by blast
  have b: "trace (snd (get_new_documents v (store_now env) st)) = trace st"
    by (rule get_new_documents_trace)
  have c: "oid d \<in> processed_ids ?st1"
    using a by (simp add: poll_for_changes_seen)
  have d: "oid d \<in> processed_ids ?st2"
    using c monitoring_loop_superset [of ?st1 v str_of sink envs]
      lifetime_superset [of "monitoring_loop v str_of sink envs ?st1" v str_of sink runs]
    by blast
  have e: "oid d \<notin> oid ` set (fst (get_new_documents v s ?st2))"
    using d get_new_documents_unseen [of v s ?st2] by blast
  show "oid d \<in> processed_ids (snd (get_new_documents v (store_now env) st))
     \<and> trace (snd (get_new_documents v (store_now env) st)) = trace st
     \<and> oid d \<in> processed_ids ?st1 \<and> oid d \<in> processed_ids ?st2
     \<and> oid d \<notin> oid ` set (fst (get_new_documents v s ?st2))"
    using a b c d e by blast
qed

lemma failed_delivery_trace:
  "trace (poll_for_changes Basic no_render sink_down \<lparr>store_now = Some [doc_b], clock = 105\<rparr>
            (init_monitor []))
     = [Processing (oid doc_b), Copy ''b = 2'' False]"
  by (simp add: poll_for_changes_def get_new_documents_def fetch_def base_query_def
      find_sort_limit_def matches_def to_dict_def init_monitor_def doc_b_def
      process_document_v_def process_document_def copy_to_clipboard_def
      attempts_def sink_down_def text_fields_def nonempty_field_def py_str_def
      formatting_b Let_def)

text \<open>
  The theorem at a record whose delivery fails: the next fetch from the same store does
  not return it.
\<close>

theorem fetched_identifier_stays_seen_witness:
  "fetch Basic (Some [doc_b]) (init_monitor []) = Inr [doc_b]
   \<and> trace (poll_for_changes Basic no_render sink_down \<lparr>store_now = Some [doc_b], clock = 105\<rparr>
            (init_monitor []))
     = [Processing (oid doc_b), Copy ''b = 2'' False]
   \<and> oid doc_b \<notin> oid ` set (fst (get_new_documents Basic (Some [doc_b])
        (poll_for_changes Basic no_render sink_down \<lparr>store_now = Some [doc_b], clock = 105\<rparr>
            (init_monitor []))))"
proof -
  have f: "fetch Basic (Some [doc_b]) (init_monitor []) = Inr [doc_b]"
    by (simp add: fetch_def base_query_def find_sort_limit_def matches_def init_monitor_def)
  show ?thesis
    using fetched_identifier_stays_seen
      [of Basic "\<lparr>store_now = Some [doc_b], clock = 105\<rparr>" "init_monitor []" "[doc_b]" doc_b
          no_render sink_down "[]" "[]" "Some [doc_b]"]
      f failed_delivery_trace
    by simp
qed

section \<open>Query bound\<close>

lemma to_dict_nonempty: "to_dict d \<noteq> []"
  by (simp add: to_dict_def)

lemma matches_exists: "matches [(f, Exists True)] d = has_field f d"
  by (simp add: matches_def has_field_def)

lemma find_one_exists:
  "find_one [(f, Exists True)] (Some coll) = Inr (List.find (has_field f) coll)"
proof -
  have "matches [(f, Exists True)] = has_field f"
    by (rule ext) (rule matches_exists)
  then show ?thesis by (simp add: find_one_def)
qed

lemma find_has_field_None: "(List.find (has_field f) coll = None) = (\<not> list_ex (has_field f) coll)"
  by (auto simp: find_None_iff list_ex_iff)

lemma choose_query_find:
  "''_id'' \<notin> set fs \<Longrightarrow>
   choose_query (fs @ [''_id'']) t (Some coll) q =
     (case List.find (\<lambda>f. list_ex (has_field f) coll) fs of
        Some f \<Rightarrow> Inr [(f, Gt (VDate t))]
      | None \<Rightarrow>
          (case from_datetime t of
             Inl e \<Rightarrow> Inl e
           | Inr last_object_id \<Rightarrow> Inr [(''_id'', Gt (VObjectId last_object_id))]))"
proof (induction fs)
  case Nil
  then show ?case by simp
next
  case (Cons f fs)
  then have ne: "f \<noteq> ''_id''" and rest: "''_id'' \<notin> set fs" by auto
  show ?case
  proof (cases "List.find (has_field f) coll")
    case None
    then have "\<not> list_ex (has_field f) coll" by (simp add: find_has_field_None)
    then show ?thesis using None ne Cons.IH [OF rest] by (simp add: find_one_exists)
  next
    case (Some d)
    then have "list_ex (has_field f) coll"
      using find_has_field_None [of f coll] by simp
    then show ?thesis using Some ne by (simp add: find_one_exists to_dict_nonempty)
  qed
qed

lemma base_query_find:
  "last_check_time st = Some t \<Longrightarrow>
   base_query (Some coll) st =
     (case List.find (\<lambda>f. list_ex (has_field f) coll)
             [''timestamp'', ''created_at'', ''createdAt'', ''date_created''] of
        Some f \<Rightarrow> Inr [(f, Gt (VDate t))]
      | None \<Rightarrow>
          (case from_datetime t of
             Inl e \<Rightarrow> Inl e
           | Inr last_object_id \<Rightarrow> Inr [(''_id'', Gt (VObjectId last_object_id))]))"
  using choose_query_find
    [of "[''timestamp'', ''created_at'', ''createdAt'', ''date_created'']" t coll "[]"]
  by (simp add: base_query_def timestamp_fields_def)

lemma map_of_dict_set: "map_of (dict_set k v xs) k = Some v"
  by (induction xs) auto

text \<open>
  Claim C2, as stated, fails: with a record in the collection that has a timestamp field,
  the query of the basic monitor bounds that field by the time of the last check and does
  not use the identifier, although the identifier bound for that time exists.
\<close>

theorem base_query_prefers_timestamp_field:
  "base_query (Some [stamped_doc]) ((init_monitor [])\<lparr>last_check_time := Some 100\<rparr>)
     = Inr [(''timestamp'', Gt (VDate 100))]
   \<and> from_datetime 100 = Inr (100 * 2 ^ 64)"
  by (simp add: base_query_def timestamp_fields_def find_one_def matches_def to_dict_def
      stamped_doc_def from_datetime_def)

text \<open>
  Claim C2, amended. The basic monitor tries the field names timestamp, created_at,
  createdAt, date_created in this order and bounds the first of them that some record of
  the collection has by the time of the last check; only when no record has any of them
  does it fall back to the bound on \<open>_id\<close>, the ObjectId made from the time of the last
  check. The enhanced monitor always bounds \<open>_id\<close>, on top of its static filters.
\<close>

theorem query_bound_selection:
  "(last_check_time st = Some t \<longrightarrow>
      base_query (Some coll) st =
        (case List.find (\<lambda>f. list_ex (has_field f) coll)
                [''timestamp'', ''created_at'', ''createdAt'', ''date_created''] of
           Some f \<Rightarrow> Inr [(f, Gt (VDate t))]
         | None \<Rightarrow>
             (case from_datetime t of
                Inl e \<Rightarrow> Inl e
              | Inr last_object_id \<Rightarrow> Inr [(''_id'', Gt (VObjectId last_object_id))])))
   \<and> (last_check_time st = Some t \<and> from_datetime t = Inr b \<longrightarrow>
      enh_query st = Inr (dict_set ''_id'' (Gt (VObjectId b)) (map (\<lambda>(k, v). (k, Eq v)) (filters st)))
      \<and> map_of (dict_set ''_id'' (Gt (VObjectId b)) (map (\<lambda>(k, v). (k, Eq v)) (filters st))) ''_id''
          = Some (Gt (VObjectId b)))"
  using base_query_find [of st t coll]
  by (simp add: enh_query_def map_of_dict_set)

text \<open>
  The theorem at a collection with a timestamp field, at one without, and at an enhanced
  monitor with a filter on type.
\<close>

theorem query_bound_selection_witness:
  "base_query (Some [doc_a, stamped_doc]) ((init_monitor [])\<lparr>last_check_time := Some 100\<rparr>)
     = Inr [(''timestamp'', Gt (VDate 100))]
   \<and> base_query (Some [doc_a, doc_b]) ((init_monitor [])\<lparr>last_check_time := Some 100\<rparr>)
     = Inr [(''_id'', Gt (VObjectId (100 * 2 ^ 64)))]
   \<and> enh_query ((init_monitor [(''type'', VStr ''code'')])\<lparr>last_check_time := Some 100\<rparr>)
     = Inr [(''type'', Eq (VStr ''code'')), (''_id'', Gt (VObjectId (100 * 2 ^ 64)))]"
  using query_bound_selection
    [of "(init_monitor [])\<lparr>last_check_time := Some 100\<rparr>" 100 "[doc_a, stamped_doc]" "100 * 2 ^ 64"]
    query_bound_selection
    [of "(init_monitor [])\<lparr>last_check_time := Some 100\<rparr>" 100 "[doc_a, doc_b]" "100 * 2 ^ 64"]
    query_bound_selection
    [of "(init_monitor [(''type'', VStr ''code'')])\<lparr>last_check_time := Some 100\<rparr>" 100 "[]" "100 * 2 ^ 64"]
  by (simp add: has_field_def to_dict_def doc_a_def doc_b_def stamped_doc_def from_datetime_def
      init_monitor_def)

section \<open>Statistics\<close>

text \<open>
  Claim C4 holds for the continuation after a failed delivery and is broken by the code
  for the counter. One poll of the enhanced monitor over \<open>doc_a\<close> and \<open>doc_b\<close>, with a
  sink whose first call fails: the copy for \<open>doc_a\<close> fails, \<open>doc_b\<close> is still processed
  and copied, and \<open>texts_copied\<close> ends at 2, so the record whose delivery failed was
  counted. \<open>enh_process_document\<close> extracts the text a second time and counts whenever
  that text is non-empty, without looking at the result of \<open>copy_to_clipboard\<close>, under
  the comment "Update stats if text was copied".
\<close>

theorem failed_delivery_counted_as_copied:
  "trace (poll_for_changes Enhanced no_render sink_fails_first
            \<lparr>store_now = Some [doc_a, doc_b], clock = 106\<rparr> (init_monitor []))
     = [Processing (oid doc_a), Copy ''a = 1'' False, Processing (oid doc_b), Copy ''b = 2'' True]
   \<and> texts_copied (poll_for_changes Enhanced no_render sink_fails_first
            \<lparr>store_now = Some [doc_a, doc_b], clock = 106\<rparr> (init_monitor [])) = 2
   \<and> documents_processed (poll_for_changes Enhanced no_render sink_fails_first
            \<lparr>store_now = Some [doc_a, doc_b], clock = 106\<rparr> (init_monitor [])) = 2"
  by (simp add: poll_for_changes_def get_new_documents_def fetch_def enh_query_def
      find_sort_limit_def matches_def to_dict_def init_monitor_def doc_a_def doc_b_def
      process_document_v_def enh_process_document_def process_document_def copy_to_clipboard_def
      attempts_def sink_fails_first_def text_fields_def nonempty_field_def py_str_def
      formatting_a formatting_b Let_def)

lemma stats_grow_refl [simp]: "stats_grow st st"
  by (simp add: stats_grow_def)

lemma stats_grow_trans: "stats_grow a b \<Longrightarrow> stats_grow b c \<Longrightarrow> stats_grow a c"
  by (auto simp: stats_grow_def)

lemma process_document_v_stats: "stats_grow st (process_document_v v str_of sink d st)"
  by (cases v)
     (simp_all add: stats_grow_def process_document_v_def enh_process_document_def
        process_document_def copy_to_clipboard_def Let_def split: option.splits)

lemma process_all_stats: "stats_grow st (process_all v str_of sink ds st)"
proof (induction ds arbitrary: st)
  case Nil
  then show ?case by simp
next
  case (Cons d ds)
  show ?case
    using stats_grow_trans [OF process_document_v_stats [of st v str_of sink d]
        Cons.IH [of "process_document_v v str_of sink d st"]]
    by simp
qed

lemma get_new_documents_stats: "stats_grow st (snd (get_new_documents v s st))"
  by (simp add: get_new_documents_cases stats_grow_def split: sum.splits)

lemma poll_for_changes_stats: "stats_grow st (poll_for_changes v str_of sink env st)"
proof -
  obtain docs st1 where g: "get_new_documents v (store_now env) st = (docs, st1)"
    by (cases "get_new_documents v (store_now env) st")
  have a: "stats_grow st st1"
    using get_new_documents_stats [of st v "store_now env"] g by simp
  have b: "stats_grow st1 (process_all v str_of sink (rev docs) st1)"
    by (rule process_all_stats)
  have c: "stats_grow st (process_all v str_of sink (rev docs) st1)"
    using stats_grow_trans [OF a b] .
  show ?thesis
    using g a c by (cases "docs = []") (simp_all add: poll_for_changes_def Let_def stats_grow_def)
qed

lemma monitoring_loop_stats: "stats_grow st (monitoring_loop v str_of sink envs st)"
proof (induction envs arbitrary: st)
  case Nil
  then show ?case by simp
next
  case (Cons env envs)
  show ?case
    using stats_grow_trans [OF poll_for_changes_stats [of st v str_of sink env]
        Cons.IH [of "poll_for_changes v str_of sink env st"]]
    by simp
qed

lemma base_start_monitoring_stats: "stats_grow st (base_start_monitoring v str_of sink r st)"
  using monitoring_loop_stats
    [of "st\<lparr>is_monitoring := True, last_check_time := Some (start_clock r - 5)\<rparr>" v str_of sink "cycles r"]
  by (simp add: base_start_monitoring_def stop_monitoring_def Let_def stats_grow_def)

lemma start_monitoring_counters:
  "documents_processed st \<le> documents_processed (start_monitoring v str_of sink r st)
   \<and> texts_copied st \<le> texts_copied (start_monitoring v str_of sink r st)"
  using base_start_monitoring_stats [of st v str_of sink r]
    base_start_monitoring_stats [of "st\<lparr>start_time := Some (stats_clock r)\<rparr>" v str_of sink r]
  by (cases v) (simp_all add: start_monitoring_def stats_grow_def)

lemma start_monitoring_start_time:
  "start_time (start_monitoring Enhanced str_of sink r st) = Some (stats_clock r)"
  using base_start_monitoring_stats [of "st\<lparr>start_time := Some (stats_clock r)\<rparr>" Enhanced str_of sink r]
  by (simp add: start_monitoring_def stats_grow_def)

lemma start_monitoring_no_cycles:
  "cycles r = [] \<Longrightarrow>
   documents_processed (start_monitoring v str_of sink r st) = documents_processed st
   \<and> texts_copied (start_monitoring v str_of sink r st) = texts_copied st"
  by (cases v)
     (simp_all add: start_monitoring_def base_start_monitoring_def stop_monitoring_def Let_def)

text \<open>
  Claim C5, as stated, fails: after a first run that processed two records, a second
  start (a run without any cycle) leaves both counters at 2; only the start time is that
  of the second start.
\<close>

theorem counters_survive_second_start:
  "documents_processed
       (lifetime Enhanced no_render sink_up [two_cycle_run, idle_run]
          (init_monitor [(''type'', VStr ''code'')])) = 2
   \<and> texts_copied
       (lifetime Enhanced no_render sink_up [two_cycle_run, idle_run]
          (init_monitor [(''type'', VStr ''code'')])) = 2
   \<and> start_time
       (lifetime Enhanced no_render sink_up [two_cycle_run, idle_run]
          (init_monitor [(''type'', VStr ''code'')])) = Some 200"
  by (simp add: start_monitoring_def base_start_monitoring_def stop_monitoring_def
      poll_for_changes_def get_new_documents_def fetch_def enh_query_def from_datetime_def
      find_sort_limit_def matches_def to_dict_def init_monitor_def doc_a_def doc_b_def
      two_cycle_run_def idle_run_def
      process_document_v_def enh_process_document_def process_document_def copy_to_clipboard_def
      attempts_def sink_up_def text_fields_def nonempty_field_def py_str_def
      formatting_a formatting_b Let_def)

text \<open>
  Claim C5, amended. Every start of the enhanced monitor sets the start time to the
  moment of that start, which is what \<open>get_stats\<close> then reports together with the run
  time since. The counters are not reset: a start never lowers them, a start whose run
  has no cycle leaves them as they were, and they are zero only in a newly constructed
  monitor.
\<close>

theorem start_sets_start_time_only:
  "start_time (start_monitoring Enhanced str_of sink r st) = Some (stats_clock r)
   \<and> fst (get_stats now (start_monitoring Enhanced str_of sink r st))
       = (documents_processed (start_monitoring Enhanced str_of sink r st),
          texts_copied (start_monitoring Enhanced str_of sink r st),
          Some (stats_clock r), Some (now - stats_clock r))
   \<and> documents_processed st \<le> documents_processed (start_monitoring v str_of sink r st)
   \<and> texts_copied st \<le> texts_copied (start_monitoring v str_of sink r st)
   \<and> (cycles r = [] \<longrightarrow>
        documents_processed (start_monitoring v str_of sink r st) = documents_processed st
        \<and> texts_copied (start_monitoring v str_of sink r st) = texts_copied st)
   \<and> documents_processed (init_monitor fs) = 0 \<and> texts_copied (init_monitor fs) = 0"
proof -
  have a: "start_time (start_monitoring Enhanced str_of sink r st) = Some (stats_clock r)"
    by (rule start_monitoring_start_time)
  have b: "fst (get_stats now (start_monitoring Enhanced str_of sink r st))
       = (documents_processed (start_monitoring Enhanced str_of sink r st),
          texts_copied (start_monitoring Enhanced str_of sink r st),
          Some (stats_clock r), Some (now - stats_clock r))"
    using a by (simp add: get_stats_def Let_def)
  have c: "documents_processed (init_monitor fs) = 0 \<and> texts_copied (init_monitor fs) = 0"
    by (simp add: init_monitor_def)
  show ?thesis
    using a b c start_monitoring_counters [of st v str_of sink r]
      start_monitoring_no_cycles [of r v str_of sink st]
    by blast
qed

text \<open>The theorem at a monitor that has counted 7 records and 4 payloads before.\<close>

theorem start_sets_start_time_only_witness:
  "cycles idle_run = []
   \<and> start_time (start_monitoring Enhanced no_render sink_up idle_run
        ((init_monitor [])\<lparr>documents_processed := 7, texts_copied := 4, start_time := Some 100\<rparr>))
       = Some 200
   \<and> documents_processed (start_monitoring Enhanced no_render sink_up idle_run
        ((init_monitor [])\<lparr>documents_processed := 7, texts_copied := 4, start_time := Some 100\<rparr>))
       = 7
   \<and> texts_copied (start_monitoring Enhanced no_render sink_up idle_run
        ((init_monitor [])\<lparr>documents_processed := 7, texts_copied := 4, start_time := Some 100\<rparr>))
       = 4"
  using start_sets_start_time_only
    [of no_render sink_up idle_run
        "(init_monitor [])\<lparr>documents_processed := 7, texts_copied := 4, start_time := Some 100\<rparr>"
        0 Enhanced "[]"]
  by (simp add: idle_run_def)

end
